theory Spec2Isabelle
  imports Complex_Main "HOL-Library.Word" "HOL-Library.Monad_Syntax"
begin

section \<open>The game of flappy\_bird.c\<close>

text \<open>
  The program is one C file: a bird, a ring of ten pipes, a score and a game-over flag,
  all global, advanced once per frame by \<^verbatim>\<open>update_game\<close>, restarted by
  \<^verbatim>\<open>reset_game\<close> and driven by the event loop of \<^verbatim>\<open>main\<close>.

  The globals become one record that every function takes and returns.  What C leaves
  undefined is the value \<open>None\<close>: an \<^verbatim>\<open>int\<close> operation whose result does not fit
  32 bits, a \<^verbatim>\<open>float\<close> converted to an \<^verbatim>\<open>int\<close> it does not fit, and an array index
  outside the array.  The inputs of the program are parameters: the value of each call
  of \<^verbatim>\<open>SDL_GetTicks()\<close>, the value of \<^verbatim>\<open>rand()\<close>, and the events polled.
\<close>

subsection \<open>Constants (lines 16-29)\<close>

definition SCREEN_WIDTH :: int where "SCREEN_WIDTH = 800"
definition SCREEN_HEIGHT :: int where "SCREEN_HEIGHT = 600"
definition BIRD_WIDTH :: int where "BIRD_WIDTH = 40"
definition BIRD_HEIGHT :: int where "BIRD_HEIGHT = 30"
definition GRAVITY :: real where "GRAVITY = 4 / 10"
definition JUMP_FORCE :: real where "JUMP_FORCE = - 8"
definition PIPE_WIDTH :: int where "PIPE_WIDTH = 60"
definition PIPE_GAP :: int where "PIPE_GAP = 170"
definition PIPE_SPEED :: int where "PIPE_SPEED = 3"
definition MAX_PIPES :: nat where "MAX_PIPES = 10"
definition PIPE_SPAWN_TIME :: "32 word" where "PIPE_SPAWN_TIME = 1500"

lemmas game_consts =
  SCREEN_WIDTH_def SCREEN_HEIGHT_def BIRD_WIDTH_def BIRD_HEIGHT_def GRAVITY_def
  JUMP_FORCE_def PIPE_WIDTH_def PIPE_GAP_def PIPE_SPEED_def MAX_PIPES_def
  PIPE_SPAWN_TIME_def

subsection \<open>C arithmetic\<close>

definition INT_MIN :: int where "INT_MIN = - (2 ^ 31)"
definition INT_MAX :: int where "INT_MAX = 2 ^ 31 - 1"

text \<open>The result of a signed operation: defined only when it fits an \<^verbatim>\<open>int\<close>.\<close>

definition c_int :: "int \<Rightarrow> int option" where
  "c_int v = (if INT_MIN \<le> v \<and> v \<le> INT_MAX then Some v else None)"

text \<open>C's \<^verbatim>\<open>/\<close> and \<^verbatim>\<open>%\<close> on \<^verbatim>\<open>int\<close> truncate towards zero.\<close>

definition c_div :: "int \<Rightarrow> int \<Rightarrow> int" where
  "c_div a b = (if (a < 0) = (b < 0) then \<bar>a\<bar> div \<bar>b\<bar> else - (\<bar>a\<bar> div \<bar>b\<bar>))"

definition c_mod :: "int \<Rightarrow> int \<Rightarrow> int" where
  "c_mod a b = a - b * c_div a b"

text \<open>
  A \<^verbatim>\<open>float\<close> is modelled by the real number it stands for (no NaN, no infinity).
  The cast \<^verbatim>\<open>(int)f\<close> drops the fractional part, towards zero, and is undefined when
  the result does not fit.
\<close>

definition c_trunc :: "real \<Rightarrow> int" where
  "c_trunc f = (if 0 \<le> f then \<lfloor>f\<rfloor> else \<lceil>f\<rceil>)"

definition float_to_int :: "real \<Rightarrow> int option" where
  "float_to_int f = c_int (c_trunc f)"

subsection \<open>Data (lines 31-61)\<close>

record SDL_Rect =
  rect_x :: int
  rect_y :: int
  rect_w :: int
  rect_h :: int

record Bird =
  bird_x :: real
  bird_y :: real
  velocity :: real
  rect :: SDL_Rect

record Pipe =
  pipe_x :: int
  gap_y :: int
  passed :: bool
  top_rect :: SDL_Rect
  bottom_rect :: SDL_Rect

text \<open>
  The globals.  \<^verbatim>\<open>pipes\<close> is an array of \<open>MAX_PIPES\<close> slots: a list, of that length
  in every state of the program.
\<close>

record game =
  bird :: Bird
  pipes :: "Pipe list"
  next_pipe :: int
  game_over :: bool
  score :: int
  last_pipe_time :: "32 word"

subsection \<open>\<^verbatim>\<open>create_pipe\<close> (lines 188-212)\<close>

text \<open>\<open>r\<close> is the value \<^verbatim>\<open>rand()\<close> returns.\<close>

definition new_pipe :: "int \<Rightarrow> Pipe" where
  "new_pipe r =
    (let x = SCREEN_WIDTH;
         min_gap_y = c_div PIPE_GAP 2 + 50;
         max_gap_y = SCREEN_HEIGHT - c_div PIPE_GAP 2 - 50;
         g = min_gap_y + c_mod r (max_gap_y - min_gap_y);
         bottom_y = g + c_div PIPE_GAP 2
     in \<lparr> pipe_x = x, gap_y = g, passed = False,
          top_rect = \<lparr> rect_x = x, rect_y = 0, rect_w = PIPE_WIDTH,
                       rect_h = g - c_div PIPE_GAP 2 \<rparr>,
          bottom_rect = \<lparr> rect_x = x, rect_y = bottom_y, rect_w = PIPE_WIDTH,
                          rect_h = SCREEN_HEIGHT - bottom_y \<rparr> \<rparr>)"

definition create_pipe :: "int \<Rightarrow> game \<Rightarrow> game option" where
  "create_pipe r g =
    (if 0 \<le> next_pipe g \<and> next_pipe g < int MAX_PIPES then
       Some (g\<lparr> pipes := (pipes g)[nat (next_pipe g) := new_pipe r],
                next_pipe := c_mod (next_pipe g + 1) (int MAX_PIPES) \<rparr>)
     else None)"

subsection \<open>\<^verbatim>\<open>check_collision\<close> (lines 214-237)\<close>

definition check_collision :: "SDL_Rect \<Rightarrow> SDL_Rect \<Rightarrow> bool option" where
  "check_collision a b = do {
     let left_a = rect_x a;
     right_a \<leftarrow> c_int (rect_x a + rect_w a);
     let top_a = rect_y a;
     bottom_a \<leftarrow> c_int (rect_y a + rect_h a);
     let left_b = rect_x b;
     right_b \<leftarrow> c_int (rect_x b + rect_w b);
     let top_b = rect_y b;
     bottom_b \<leftarrow> c_int (rect_y b + rect_h b);
     if bottom_a \<le> top_b then Some False
     else if top_a \<ge> bottom_b then Some False
     else if right_a \<le> left_b then Some False
     else if left_a \<ge> right_b then Some False
     else Some True }"

subsection \<open>\<^verbatim>\<open>update_game\<close> (lines 239-294)\<close>

text \<open>Lines 241-247: spawn a pipe when more than 1500 ms have passed (unsigned 32-bit).\<close>

definition spawn_step :: "32 word \<Rightarrow> int \<Rightarrow> game \<Rightarrow> game option" where
  "spawn_step current_time r g =
    (if current_time - last_pipe_time g > PIPE_SPAWN_TIME then do {
       g1 \<leftarrow> create_pipe r g;
       Some (g1\<lparr> last_pipe_time := current_time \<rparr>) }
     else Some g)"

text \<open>
  Lines 249-260: the bird.  \<open>rnd\<close> is the rounding of an exact result to a
  \<^verbatim>\<open>float\<close> when it is stored; nothing below depends on which function it is.
\<close>

definition bird_step :: "(real \<Rightarrow> real) \<Rightarrow> game \<Rightarrow> game option" where
  "bird_step rnd g = do {
     let b = bird g;
     let b = b\<lparr> velocity := rnd (velocity b + GRAVITY) \<rparr>;
     let b = b\<lparr> bird_y := rnd (bird_y b + velocity b) \<rparr>;
     ry \<leftarrow> float_to_int (bird_y b);
     let b = b\<lparr> rect := (rect b)\<lparr> rect_y := ry \<rparr> \<rparr>;
     let b = (if rect_y (rect b) < 0
              then b\<lparr> rect := (rect b)\<lparr> rect_y := 0 \<rparr>, bird_y := 0, velocity := 0 \<rparr>
              else b);
     Some (g\<lparr> bird := b \<rparr>) }"

text \<open>Lines 262-266: the ground.\<close>

definition ground_check :: "game \<Rightarrow> game option" where
  "ground_check g = do {
     bottom \<leftarrow> c_int (rect_y (rect (bird g)) + rect_h (rect (bird g)));
     Some (if bottom > SCREEN_HEIGHT - 20 then g\<lparr> game_over := True \<rparr> else g) }"

text \<open>Lines 271-292: the body of the loop over the pipes, for slot \<open>i\<close>.\<close>

definition update_pipe :: "nat \<Rightarrow> game \<Rightarrow> game option" where
  "update_pipe i g =
    (if pipe_x (pipes g ! i) > SCREEN_WIDTH + 100 then Some g
     else do {
       let p = pipes g ! i;
       nx \<leftarrow> c_int (pipe_x p - PIPE_SPEED);
       let p = p\<lparr> pipe_x := nx \<rparr>;
       let p = p\<lparr> top_rect := (top_rect p)\<lparr> rect_x := pipe_x p \<rparr> \<rparr>;
       let p = p\<lparr> bottom_rect := (bottom_rect p)\<lparr> rect_x := pipe_x p \<rparr> \<rparr>;
       (p, sc) \<leftarrow>
         (if \<not> passed p then do {
            edge \<leftarrow> c_int (pipe_x p + PIPE_WIDTH);
            if edge < rect_x (rect (bird g)) then do {
              sc \<leftarrow> c_int (score g + 1);
              Some (p\<lparr> passed := True \<rparr>, sc) }
            else Some (p, score g) }
          else Some (p, score g));
       hit_top \<leftarrow> check_collision (rect (bird g)) (top_rect p);
       hit \<leftarrow> (if hit_top then Some True
               else check_collision (rect (bird g)) (bottom_rect p));
       Some (g\<lparr> pipes := (pipes g)[i := p], score := sc,
                game_over := (if hit then True else game_over g) \<rparr>) })"

text \<open>Lines 269-293: \<^verbatim>\<open>for (int i = 0; i < MAX_PIPES; i++)\<close>, entered at \<open>i\<close>.\<close>

function pipes_loop :: "nat \<Rightarrow> game \<Rightarrow> game option" where
  "pipes_loop i g =
    (if i < MAX_PIPES then do { g1 \<leftarrow> update_pipe i g; pipes_loop (i + 1) g1 }
     else Some g)"
  by pat_completeness auto
termination
  by (relation "measure (\<lambda>(i, g). MAX_PIPES - i)") auto

definition update_game :: "(real \<Rightarrow> real) \<Rightarrow> 32 word \<Rightarrow> int \<Rightarrow> game \<Rightarrow> game option" where
  "update_game rnd current_time r g = do {
     g1 \<leftarrow> spawn_step current_time r g;
     g2 \<leftarrow> bird_step rnd g1;
     g3 \<leftarrow> ground_check g2;
     pipes_loop 0 g3 }"

subsection \<open>\<^verbatim>\<open>render_game\<close> (lines 296-424)\<close>

text \<open>
  The renderer reads the globals and writes none of them (it keeps the last score it
  printed in a static variable of its own).  Line 306 decides whether the two boxes of a
  pipe are drawn.
\<close>

definition pipe_drawn :: "Pipe \<Rightarrow> bool option" where
  "pipe_drawn p = do {
     edge \<leftarrow> c_int (pipe_x p + PIPE_WIDTH);
     Some (edge > 0 \<and> pipe_x p < SCREEN_WIDTH) }"

subsection \<open>\<^verbatim>\<open>reset_game\<close> (lines 426-449)\<close>

text \<open>Lines 438-441: the loop writes the field \<^verbatim>\<open>x\<close> of each slot and nothing else.\<close>

function reset_pipes :: "nat \<Rightarrow> Pipe list \<Rightarrow> Pipe list" where
  "reset_pipes i ps =
    (if i < MAX_PIPES
     then reset_pipes (i + 1) (ps[i := (ps ! i)\<lparr> pipe_x := SCREEN_WIDTH * 2 \<rparr>])
     else ps)"
  by pat_completeness auto
termination
  by (relation "measure (\<lambda>(i, ps). MAX_PIPES - i)") auto

text \<open>\<open>now\<close> is the value of \<^verbatim>\<open>SDL_GetTicks()\<close> at line 446.\<close>

definition reset_game :: "32 word \<Rightarrow> game \<Rightarrow> game" where
  "reset_game now g =
    (let b = bird g;
         b = b\<lparr> bird_x := real_of_int (c_div SCREEN_WIDTH 4) \<rparr>;
         b = b\<lparr> bird_y := real_of_int (c_div SCREEN_HEIGHT 2) \<rparr>;
         b = b\<lparr> velocity := 0 \<rparr>;
         b = b\<lparr> rect := (rect b)\<lparr> rect_x := c_trunc (bird_x b) \<rparr> \<rparr>;
         b = b\<lparr> rect := (rect b)\<lparr> rect_y := c_trunc (bird_y b) \<rparr> \<rparr>;
         b = b\<lparr> rect := (rect b)\<lparr> rect_w := BIRD_WIDTH \<rparr> \<rparr>;
         b = b\<lparr> rect := (rect b)\<lparr> rect_h := BIRD_HEIGHT \<rparr> \<rparr>
     in g\<lparr> bird := b, pipes := reset_pipes 0 (pipes g), game_over := False, score := 0,
           last_pipe_time := now \<rparr>)"

subsection \<open>The loop of \<^verbatim>\<open>main\<close> (lines 122-177)\<close>

datatype keysym = SDLK_SPACE | SDLK_ESCAPE | SDLK_other
datatype button = SDL_BUTTON_LEFT | SDL_BUTTON_other
datatype event = SDL_QUIT | SDL_KEYDOWN keysym | SDL_MOUSEBUTTONDOWN button | SDL_other

text \<open>
  Lines 127-163: one polled event.  The state of the loop is the globals and the local
  \<^verbatim>\<open>quit\<close>; \<open>now\<close> is what \<^verbatim>\<open>SDL_GetTicks()\<close> returns should \<^verbatim>\<open>reset_game\<close> be called.
\<close>

definition jump_or_restart :: "32 word \<Rightarrow> game \<Rightarrow> game" where
  "jump_or_restart now g =
    (if game_over g then reset_game now g
     else g\<lparr> bird := (bird g)\<lparr> velocity := JUMP_FORCE \<rparr> \<rparr>)"

fun handle_event :: "event \<times> 32 word \<Rightarrow> game \<times> bool \<Rightarrow> game \<times> bool" where
  "handle_event (SDL_QUIT, now) (g, quit) = (g, True)"
| "handle_event (SDL_KEYDOWN SDLK_SPACE, now) (g, quit) = (jump_or_restart now g, quit)"
| "handle_event (SDL_KEYDOWN SDLK_ESCAPE, now) (g, quit) = (g, True)"
| "handle_event (SDL_KEYDOWN SDLK_other, now) (g, quit) = (g, quit)"
| "handle_event (SDL_MOUSEBUTTONDOWN SDL_BUTTON_LEFT, now) (g, quit) =
     (jump_or_restart now g, quit)"
| "handle_event (SDL_MOUSEBUTTONDOWN SDL_BUTTON_other, now) (g, quit) = (g, quit)"
| "handle_event (SDL_other, now) (g, quit) = (g, quit)"

text \<open>Lines 125-164: \<^verbatim>\<open>while (SDL_PollEvent(&e) != 0)\<close>, over the events queued.\<close>

fun poll_events :: "(event \<times> 32 word) list \<Rightarrow> game \<times> bool \<Rightarrow> game \<times> bool" where
  "poll_events [] s = s"
| "poll_events (e # es) s = poll_events es (handle_event e s)"

text \<open>
  The jump signal of the specification: a key-down of the space bar or a press of the
  left mouse button.
\<close>

fun is_jump :: "event \<Rightarrow> bool" where
  "is_jump (SDL_KEYDOWN SDLK_SPACE) = True"
| "is_jump (SDL_MOUSEBUTTONDOWN SDL_BUTTON_LEFT) = True"
| "is_jump _ = False"

text \<open>
  What one iteration consumes: the events queued, and the values \<^verbatim>\<open>SDL_GetTicks()\<close>
  and \<^verbatim>\<open>rand()\<close> return inside \<^verbatim>\<open>update_game\<close>.
\<close>

record frame_input =
  events :: "(event \<times> 32 word) list"
  ticks :: "32 word"
  rand :: int

text \<open>Lines 124-176: one iteration of \<^verbatim>\<open>while (!quit)\<close>.\<close>

definition main_iteration ::
    "(real \<Rightarrow> real) \<Rightarrow> frame_input \<Rightarrow> game \<times> bool \<Rightarrow> (game \<times> bool) option" where
  "main_iteration rnd inp s =
    (let (g, quit) = poll_events (events inp) s in
     if \<not> game_over g then do {
       g1 \<leftarrow> update_game rnd (ticks inp) (rand inp) g;
       Some (g1, quit) }
     else Some (g, quit))"

text \<open>Lines 122-177: the loop, over the inputs of the iterations to come.\<close>

fun main_loop ::
    "(real \<Rightarrow> real) \<Rightarrow> frame_input list \<Rightarrow> game \<times> bool \<Rightarrow> (game \<times> bool) option" where
  "main_loop rnd [] s = Some s"
| "main_loop rnd (inp # inps) (g, quit) =
     (if \<not> quit then do { s1 \<leftarrow> main_iteration rnd inp (g, quit); main_loop rnd inps s1 }
      else Some (g, quit))"

subsection \<open>Notions used in the statements\<close>

text \<open>The right and bottom edges of a rectangle, as \<^verbatim>\<open>check_collision\<close> computes them.\<close>

definition rect_right :: "SDL_Rect \<Rightarrow> int" where
  "rect_right a = rect_x a + rect_w a"

definition rect_bottom :: "SDL_Rect \<Rightarrow> int" where
  "rect_bottom a = rect_y a + rect_h a"

text \<open>Both edges fit an \<^verbatim>\<open>int\<close>: the additions of lines 218 to 225 are defined.\<close>

definition rect_fits :: "SDL_Rect \<Rightarrow> bool" where
  "rect_fits a = (c_int (rect_right a) \<noteq> None \<and> c_int (rect_bottom a) \<noteq> None)"

text \<open>Line 272 does not skip the pipe.\<close>

definition relevant :: "Pipe \<Rightarrow> bool" where
  "relevant p = (pipe_x p \<le> SCREEN_WIDTH + 100)"

text \<open>Lines 288-289 hold for the box \<open>a\<close> of the bird and the pipe \<open>p\<close>.\<close>

definition hits :: "SDL_Rect \<Rightarrow> Pipe \<Rightarrow> bool" where
  "hits a p = (check_collision a (top_rect p) = Some True \<or>
               check_collision a (bottom_rect p) = Some True)"

text \<open>Line 281 holds once the pipe \<open>p\<close> has moved.\<close>

definition scores :: "SDL_Rect \<Rightarrow> Pipe \<Rightarrow> bool" where
  "scores a p = (\<not> passed p \<and> pipe_x p - PIPE_SPEED + PIPE_WIDTH < rect_x a)"

text \<open>What lines 276-285 leave in the slot of a pipe that is not skipped, and in any slot.\<close>

definition pipe_after :: "SDL_Rect \<Rightarrow> Pipe \<Rightarrow> Pipe" where
  "pipe_after a p =
     (let q = p\<lparr> pipe_x := pipe_x p - PIPE_SPEED,
                top_rect := (top_rect p)\<lparr> rect_x := pipe_x p - PIPE_SPEED \<rparr>,
                bottom_rect := (bottom_rect p)\<lparr> rect_x := pipe_x p - PIPE_SPEED \<rparr> \<rparr>
      in if scores a p then q\<lparr> passed := True \<rparr> else q)"

definition slot_after :: "SDL_Rect \<Rightarrow> Pipe \<Rightarrow> Pipe" where
  "slot_after a p = (if relevant p then pipe_after a p else p)"

text \<open>
  How many of the values \<open>0, \<dots>, m\<close> that \<^verbatim>\<open>rand()\<close> can return (\<open>m\<close> is the
  \<^verbatim>\<open>RAND_MAX\<close> of the C library) put the gap of the new pipe at row \<open>y\<close>.
\<close>

definition gap_draws :: "int \<Rightarrow> int \<Rightarrow> nat" where
  "gap_draws m y = card {r. 0 \<le> r \<and> r \<le> m \<and> gap_y (new_pipe r) = y}"

text \<open>
  States far from the limits of \<^verbatim>\<open>int\<close>: every coordinate and the score within
  \<open>2\<^sup>2\<^sup>0\<close> of zero, the ring of the right length, its cursor inside it.  On these
  \<^verbatim>\<open>update_game\<close> is defined (lemma \<open>update_game_defined\<close>).
\<close>

definition small :: "int \<Rightarrow> bool" where
  "small v = (- (2 ^ 20) \<le> v \<and> v \<le> 2 ^ 20)"

definition rect_small :: "SDL_Rect \<Rightarrow> bool" where
  "rect_small a = (small (rect_x a) \<and> small (rect_y a) \<and> small (rect_w a) \<and> small (rect_h a))"

definition pipe_small :: "Pipe \<Rightarrow> bool" where
  "pipe_small p = (small (pipe_x p) \<and> rect_small (top_rect p) \<and> rect_small (bottom_rect p))"

definition sane :: "game \<Rightarrow> bool" where
  "sane g = (length (pipes g) = MAX_PIPES \<and> 0 \<le> next_pipe g \<and> next_pipe g < int MAX_PIPES \<and>
             small (score g) \<and> rect_small (rect (bird g)) \<and>
             (\<forall>i<MAX_PIPES. pipe_small (pipes g ! i)))"

subsection \<open>States and inputs of the examples\<close>

text \<open>
  Lines 56-61: the globals when \<^verbatim>\<open>main\<close> starts.  Objects of static storage without
  an initialiser are zero.
\<close>

definition zero_rect :: SDL_Rect where
  "zero_rect = \<lparr> rect_x = 0, rect_y = 0, rect_w = 0, rect_h = 0 \<rparr>"

definition zero_pipe :: Pipe where
  "zero_pipe = \<lparr> pipe_x = 0, gap_y = 0, passed = False, top_rect = zero_rect,
                 bottom_rect = zero_rect \<rparr>"

definition program_start :: game where
  "program_start =
     \<lparr> bird = \<lparr> bird_x = 0, bird_y = 0, velocity = 0, rect = zero_rect \<rparr>,
       pipes = [zero_pipe, zero_pipe, zero_pipe, zero_pipe, zero_pipe,
                zero_pipe, zero_pipe, zero_pipe, zero_pipe, zero_pipe],
       next_pipe = 0, game_over = False, score = 0, last_pipe_time = 0 \<rparr>"

text \<open>A slot as the first \<^verbatim>\<open>reset_game\<close> leaves it, and a pipe on its way across the screen.\<close>

definition stale_pipe :: Pipe where
  "stale_pipe = zero_pipe\<lparr> pipe_x := 1600 \<rparr>"

definition pipe_at :: "int \<Rightarrow> int \<Rightarrow> bool \<Rightarrow> Pipe" where
  "pipe_at x gy f =
     \<lparr> pipe_x = x, gap_y = gy, passed = f,
       top_rect = \<lparr> rect_x = x, rect_y = 0, rect_w = 60, rect_h = gy - 85 \<rparr>,
       bottom_rect = \<lparr> rect_x = x, rect_y = gy + 85, rect_w = 60, rect_h = 600 - (gy + 85) \<rparr> \<rparr>"

text \<open>
  A game under way: the bird at height \<open>y\<close> with velocity \<open>v\<close> and box row \<open>ry\<close>, the
  first two slots \<open>p\<close> and \<open>q\<close>, the cursor \<open>n\<close>, the score \<open>sc\<close> and the flag \<open>go\<close>.
\<close>

definition playing ::
    "real \<Rightarrow> real \<Rightarrow> int \<Rightarrow> Pipe \<Rightarrow> Pipe \<Rightarrow> int \<Rightarrow> int \<Rightarrow> bool \<Rightarrow> game" where
  "playing y v ry p q n sc go =
     \<lparr> bird = \<lparr> bird_x = 200, bird_y = y, velocity = v,
                rect = \<lparr> rect_x = 200, rect_y = ry, rect_w = 40, rect_h = 30 \<rparr> \<rparr>,
       pipes = [p, q, stale_pipe, stale_pipe, stale_pipe,
                stale_pipe, stale_pipe, stale_pipe, stale_pipe, stale_pipe],
       next_pipe = n, game_over = go, score = sc, last_pipe_time = 0 \<rparr>"

text \<open>The same before the first pipe has spawned.\<close>

definition in_flight :: "real \<Rightarrow> real \<Rightarrow> int \<Rightarrow> game" where
  "in_flight y v ry = playing y v ry stale_pipe stale_pipe 0 0 False"

text \<open>Arithmetic on \<^verbatim>\<open>float\<close> that happens to be exact.\<close>

definition exact :: "real \<Rightarrow> real" where
  "exact v = v"

text \<open>
  Frames 16 ms apart from time \<open>t\<close> on, each with the space bar pressed or with no event.
\<close>

fun frames_from :: "32 word \<Rightarrow> bool list \<Rightarrow> frame_input list" where
  "frames_from t [] = []"
| "frames_from t (j # js) =
     \<lparr> events = (if j then [(SDL_KEYDOWN SDLK_SPACE, t)] else []), ticks = t, rand = 0 \<rparr>
     # frames_from (t + 16) js"

text \<open>
  Thirty-nine frames: eight times a press and a frame of falling, then twenty-three
  presses in a row.
\<close>

definition climb :: "bool list" where
  "climb =
     [True, False, True, False, True, False, True, False,
      True, False, True, False, True, False, True, False,
      True, True, True, True, True, True, True, True, True, True, True, True,
      True, True, True, True, True, True, True, True, True, True, True]"

section \<open>C arithmetic\<close>

lemma c_int_Some: "c_int v = Some w \<longleftrightarrow> w = v \<and> INT_MIN \<le> v \<and> v \<le> INT_MAX"
  by (auto simp: c_int_def)

text \<open>On operands that are not negative, C's division and remainder are those of HOL.\<close>

lemma c_div_pos: "0 \<le> a \<Longrightarrow> 0 < b \<Longrightarrow> c_div a b = a div b"
  by (simp add: c_div_def)

lemma c_mod_pos: "0 \<le> a \<Longrightarrow> 0 < b \<Longrightarrow> c_mod a b = a mod b"
  by (simp add: c_mod_def c_div_pos minus_mult_div_eq_mod)

lemma c_mod_neg: "a < 0 \<Longrightarrow> 0 < b \<Longrightarrow> c_mod a b = - ((- a) mod b)"
proof -
  assume "a < 0" and "0 < b"
  then have "c_mod a b = a + b * ((- a) div b)"
    by (simp add: c_mod_def c_div_def)
  also have "\<dots> = - ((- a) - b * ((- a) div b))" by simp
  also have "\<dots> = - ((- a) mod b)" by (simp only: minus_mult_div_eq_mod)
  finally show ?thesis .
qed

lemma c_mod_bounds:
  assumes "0 < b"
  shows "- b < c_mod a b \<and> c_mod a b < b"
proof (cases "0 \<le> a")
  case True
  have "0 \<le> a mod b" "a mod b < b" using assms by simp_all
  with True assms show ?thesis by (simp add: c_mod_pos)
next
  case False
  have "0 \<le> (- a) mod b" "(- a) mod b < b" using assms by simp_all
  with False assms show ?thesis by (simp add: c_mod_neg)
qed

section \<open>The collision predicate\<close>

lemma check_collision_eq:
  "check_collision a b =
     (if rect_fits a \<and> rect_fits b
      then Some (\<not> (rect_bottom a \<le> rect_y b \<or> rect_y a \<ge> rect_bottom b \<or>
                    rect_right a \<le> rect_x b \<or> rect_x a \<ge> rect_right b))
      else None)"
  by (auto simp: check_collision_def rect_fits_def rect_right_def rect_bottom_def c_int_def
           Let_def split: if_splits bind_splits)

text \<open>
  Claim C3.  For all rectangles whose edges fit an \<^verbatim>\<open>int\<close>, \<^verbatim>\<open>check_collision\<close>
  returns false exactly when \<open>a.bottom \<le> b.top\<close>, or \<open>a.top \<ge> b.bottom\<close>, or
  \<open>a.right \<le> b.left\<close>, or \<open>a.left \<ge> b.right\<close>, and true exactly when none of the
  four holds; it returns nothing only when an edge overflows.  Two rectangles that share
  a boundary edge (\<open>a.right = b.left\<close>) never intersect, and the predicate is symmetric.
\<close>

theorem check_collision_spec:
  "(check_collision a b = Some False \<longleftrightarrow>
      rect_fits a \<and> rect_fits b \<and>
      (rect_bottom a \<le> rect_y b \<or> rect_y a \<ge> rect_bottom b \<or>
       rect_right a \<le> rect_x b \<or> rect_x a \<ge> rect_right b)) \<and>
   (check_collision a b = Some True \<longleftrightarrow>
      rect_fits a \<and> rect_fits b \<and>
      \<not> (rect_bottom a \<le> rect_y b \<or> rect_y a \<ge> rect_bottom b \<or>
         rect_right a \<le> rect_x b \<or> rect_x a \<ge> rect_right b)) \<and>
   (check_collision a b = None \<longleftrightarrow> \<not> (rect_fits a \<and> rect_fits b)) \<and>
   (rect_right a = rect_x b \<longrightarrow> check_collision a b \<noteq> Some True) \<and>
   check_collision a b = check_collision b a"
  by (auto simp: check_collision_eq)

text \<open>
  The bird's box of a fresh game against a pipe box that starts where it ends (no
  intersection, either way round), and against one that starts a pixel earlier.
\<close>

theorem check_collision_spec_witness:
  "rect_right \<lparr> rect_x = 200, rect_y = 300, rect_w = 40, rect_h = 30 \<rparr> =
     rect_x \<lparr> rect_x = 240, rect_y = 0, rect_w = 60, rect_h = 400 \<rparr> \<and>
   check_collision \<lparr> rect_x = 200, rect_y = 300, rect_w = 40, rect_h = 30 \<rparr>
                   \<lparr> rect_x = 240, rect_y = 0, rect_w = 60, rect_h = 400 \<rparr> = Some False \<and>
   check_collision \<lparr> rect_x = 240, rect_y = 0, rect_w = 60, rect_h = 400 \<rparr>
                   \<lparr> rect_x = 200, rect_y = 300, rect_w = 40, rect_h = 30 \<rparr> = Some False \<and>
   check_collision \<lparr> rect_x = 200, rect_y = 300, rect_w = 40, rect_h = 30 \<rparr>
                   \<lparr> rect_x = 239, rect_y = 0, rect_w = 60, rect_h = 400 \<rparr> = Some True"
  using check_collision_spec
          [of "\<lparr> rect_x = 200, rect_y = 300, rect_w = 40, rect_h = 30 \<rparr>"
              "\<lparr> rect_x = 240, rect_y = 0, rect_w = 60, rect_h = 400 \<rparr>"]
        check_collision_spec
          [of "\<lparr> rect_x = 240, rect_y = 0, rect_w = 60, rect_h = 400 \<rparr>"
              "\<lparr> rect_x = 200, rect_y = 300, rect_w = 40, rect_h = 30 \<rparr>"]
        check_collision_spec
          [of "\<lparr> rect_x = 200, rect_y = 300, rect_w = 40, rect_h = 30 \<rparr>"
              "\<lparr> rect_x = 239, rect_y = 0, rect_w = 60, rect_h = 400 \<rparr>"]
  by (simp add: rect_fits_def rect_right_def rect_bottom_def c_int_def INT_MIN_def INT_MAX_def)

lemma rect_small_fits: "rect_small a \<Longrightarrow> rect_fits a"
  by (simp add: rect_small_def small_def rect_fits_def rect_right_def rect_bottom_def
      c_int_def INT_MIN_def INT_MAX_def)

section \<open>The loop over the pipes\<close>

text \<open>The body of the loop, first on a slot it skips, then on one it moves.\<close>

lemma update_pipe_skip:
  "\<not> relevant (pipes g ! i) \<Longrightarrow> update_pipe i g = Some g"
  by (simp add: update_pipe_def relevant_def)

lemma update_pipe_relevant:
  assumes "update_pipe i g = Some g'" and "relevant (pipes g ! i)"
  shows "g' = g\<lparr> pipes := (pipes g)[i := pipe_after (rect (bird g)) (pipes g ! i)],
                 score := (if scores (rect (bird g)) (pipes g ! i) then score g + 1 else score g),
                 game_over := (game_over g \<or>
                               hits (rect (bird g)) (pipe_after (rect (bird g)) (pipes g ! i))) \<rparr>"
  using assms
  by (auto simp: update_pipe_def Let_def c_int_Some hits_def pipe_after_def scores_def relevant_def
      split: if_splits bind_splits)

lemma update_pipe_Some:
  assumes "update_pipe i g = Some g'"
  shows "g' = g\<lparr> pipes := (pipes g)[i := slot_after (rect (bird g)) (pipes g ! i)],
                 score := score g +
                   (if relevant (pipes g ! i) \<and> scores (rect (bird g)) (pipes g ! i) then 1 else 0),
                 game_over := (game_over g \<or> relevant (pipes g ! i) \<and>
                               hits (rect (bird g)) (slot_after (rect (bird g)) (pipes g ! i))) \<rparr>"
proof (cases "relevant (pipes g ! i)")
  case True
  then show ?thesis
    using update_pipe_relevant [OF assms True] by (simp add: slot_after_def)
next
  case False
  then have "g' = g" using assms by (simp add: update_pipe_skip)
  with False show ?thesis by (simp add: slot_after_def)
qed

lemma pipe_after_simps:
  "pipe_x (pipe_after a p) = pipe_x p - PIPE_SPEED"
  "gap_y (pipe_after a p) = gap_y p"
  "passed (pipe_after a p) \<longleftrightarrow> passed p \<or> pipe_x p - PIPE_SPEED + PIPE_WIDTH < rect_x a"
  "top_rect (pipe_after a p) = (top_rect p)\<lparr> rect_x := pipe_x p - PIPE_SPEED \<rparr>"
  "bottom_rect (pipe_after a p) = (bottom_rect p)\<lparr> rect_x := pipe_x p - PIPE_SPEED \<rparr>"
  by (auto simp: pipe_after_def scores_def Let_def)

text \<open>
  The loop entered at \<open>i\<close> leaves the bird alone, rewrites the slots from \<open>i\<close> on, each
  from its own old contents, adds one to the score for each pipe that is passed, and sets
  the flag when the bird hits a pipe that has moved.
\<close>

declare pipes_loop.simps [simp del]

lemma pipes_loop_Some:
  assumes "pipes_loop i g = Some g'"
  shows "bird g' = bird g \<and> next_pipe g' = next_pipe g \<and> last_pipe_time g' = last_pipe_time g \<and>
         length (pipes g') = length (pipes g) \<and>
         (\<forall>j < length (pipes g). pipes g' ! j =
             (if i \<le> j \<and> j < MAX_PIPES then slot_after (rect (bird g)) (pipes g ! j)
              else pipes g ! j)) \<and>
         score g' = score g + (\<Sum>j = i..<MAX_PIPES.
             if relevant (pipes g ! j) \<and> scores (rect (bird g)) (pipes g ! j) then 1 else 0) \<and>
         (game_over g' \<longleftrightarrow> game_over g \<or>
             (\<exists>j. i \<le> j \<and> j < MAX_PIPES \<and> relevant (pipes g ! j) \<and>
                  hits (rect (bird g)) (slot_after (rect (bird g)) (pipes g ! j))))"
  using assms
proof (induction i g arbitrary: g' rule: pipes_loop.induct)
  case (1 i g)
  show ?case
  proof (cases "i < MAX_PIPES")
    case False
    with "1.prems" show ?thesis by (auto simp: pipes_loop.simps)
  next
    case True
    from "1.prems" True obtain g1 where
      g1: "update_pipe i g = Some g1" and rest: "pipes_loop (i + 1) g1 = Some g'"
      by (auto simp: pipes_loop.simps [of i g] split: bind_splits)
    note u = update_pipe_Some [OF g1]
    note IH = "1.IH" [OF True g1 rest]
    have b: "bird g1 = bird g" and l: "length (pipes g1) = length (pipes g)"
      by (subst u, simp)+
    have later: "pipes g1 ! j = pipes g ! j" if "j \<noteq> i" for j
      using that by (subst u) simp
    have sum_eq: "(\<Sum>j = i + 1..<MAX_PIPES.
             if relevant (pipes g1 ! j) \<and> scores (rect (bird g1)) (pipes g1 ! j) then 1 else 0) =
          (\<Sum>j = i + 1..<MAX_PIPES.
             if relevant (pipes g ! j) \<and> scores (rect (bird g)) (pipes g ! j) then (1::int) else 0)"
      by (rule sum.cong) (simp_all add: later b)
    have slot_i: "pipes g1 ! i = slot_after (rect (bird g)) (pipes g ! i)" if "i < length (pipes g)"
      using that by (subst u) simp
    have sc1: "score g1 = score g +
        (if relevant (pipes g ! i) \<and> scores (rect (bird g)) (pipes g ! i) then 1 else 0)"
      by (subst u) simp
    have go1: "game_over g1 \<longleftrightarrow> game_over g \<or> relevant (pipes g ! i) \<and>
                               hits (rect (bird g)) (slot_after (rect (bird g)) (pipes g ! i))"
      by (subst u) simp
    have A: "bird g' = bird g \<and> next_pipe g' = next_pipe g \<and>
        last_pipe_time g' = last_pipe_time g \<and> length (pipes g') = length (pipes g)"
    proof -
      have "next_pipe g1 = next_pipe g" and "last_pipe_time g1 = last_pipe_time g"
        by (subst u, simp)+
      with IH b l show ?thesis by simp
    qed
    have B: "\<forall>j < length (pipes g). pipes g' ! j =
             (if i \<le> j \<and> j < MAX_PIPES then slot_after (rect (bird g)) (pipes g ! j)
              else pipes g ! j)"
    proof (intro allI impI)
      fix j assume j: "j < length (pipes g)"
      with IH l have *: "pipes g' ! j =
             (if i + 1 \<le> j \<and> j < MAX_PIPES then slot_after (rect (bird g1)) (pipes g1 ! j)
              else pipes g1 ! j)" by simp
      show "pipes g' ! j =
             (if i \<le> j \<and> j < MAX_PIPES then slot_after (rect (bird g)) (pipes g ! j)
              else pipes g ! j)"
      proof (cases "j = i")
        case True
        with * slot_i j \<open>i < MAX_PIPES\<close> show ?thesis by simp
      next
        case False
        with * later [OF False] b show ?thesis by auto
      qed
    qed
    have C: "score g' = score g + (\<Sum>j = i..<MAX_PIPES.
             if relevant (pipes g ! j) \<and> scores (rect (bird g)) (pipes g ! j) then 1 else 0)"
      using IH sum_eq sc1 True by (simp add: sum.atLeast_Suc_lessThan)
    have D: "game_over g' \<longleftrightarrow> game_over g \<or>
             (\<exists>j. i \<le> j \<and> j < MAX_PIPES \<and> relevant (pipes g ! j) \<and>
                  hits (rect (bird g)) (slot_after (rect (bird g)) (pipes g ! j)))"
    proof -
      have "game_over g' \<longleftrightarrow> game_over g1 \<or>
             (\<exists>j. i + 1 \<le> j \<and> j < MAX_PIPES \<and> relevant (pipes g1 ! j) \<and>
                  hits (rect (bird g1)) (slot_after (rect (bird g1)) (pipes g1 ! j)))"
        using IH by blast
      also have "\<dots> \<longleftrightarrow> game_over g1 \<or>
             (\<exists>j. i + 1 \<le> j \<and> j < MAX_PIPES \<and> relevant (pipes g ! j) \<and>
                  hits (rect (bird g)) (slot_after (rect (bird g)) (pipes g ! j)))"
        using later b by auto
      also have "\<dots> \<longleftrightarrow> game_over g \<or>
             (\<exists>j. i \<le> j \<and> j < MAX_PIPES \<and> relevant (pipes g ! j) \<and>
                  hits (rect (bird g)) (slot_after (rect (bird g)) (pipes g ! j)))"
      proof -
        have "i \<le> j \<longleftrightarrow> j = i \<or> i + 1 \<le> j" for j by auto
        then show ?thesis unfolding go1 using True by auto
      qed
      finally show ?thesis .
    qed
    from A B C D show ?thesis by blast
  qed
qed

text \<open>
  A slot the loop skips can hold anything that it skips: the loop computes the same, and
  hands the slot back.
\<close>

lemma update_pipe_other_slot:
  assumes "k \<noteq> i"
  shows "update_pipe k (g\<lparr> pipes := (pipes g)[i := q] \<rparr>) =
         map_option (\<lambda>g'. g'\<lparr> pipes := (pipes g')[i := q] \<rparr>) (update_pipe k g)"
  using assms
  by (auto simp: update_pipe_def Let_def list_update_swap split: bind_splits if_splits)

lemma pipes_loop_stale_slot:
  assumes "i < length (pipes g)" and "\<not> relevant (pipes g ! i)" and "\<not> relevant q"
  shows "pipes_loop k (g\<lparr> pipes := (pipes g)[i := q] \<rparr>) =
         map_option (\<lambda>g'. g'\<lparr> pipes := (pipes g')[i := q] \<rparr>) (pipes_loop k g)"
  using assms
proof (induction k g rule: pipes_loop.induct)
  case (1 k g)
  let ?h = "g\<lparr> pipes := (pipes g)[i := q] \<rparr>"
  show ?case
  proof (cases "k < MAX_PIPES")
    case False
    then show ?thesis by (simp add: pipes_loop.simps)
  next
    case True
    show ?thesis
    proof (cases "k = i")
      case ki: True
      have 1: "update_pipe k g = Some g" using ki "1.prems" by (simp add: update_pipe_skip)
      have 2: "update_pipe k ?h = Some ?h" using ki "1.prems" by (simp add: update_pipe_skip)
      from "1.IH" [OF True 1 "1.prems"] 1 2 True show ?thesis
        by (simp add: pipes_loop.simps [of k])
    next
      case ki: False
      show ?thesis
      proof (cases "update_pipe k g")
        case None
        with update_pipe_other_slot [OF ki, of g q] True show ?thesis
          by (simp add: pipes_loop.simps [of k])
      next
        case (Some g1)
        have l: "i < length (pipes g1)" and r: "\<not> relevant (pipes g1 ! i)"
          using "1.prems" ki by (subst update_pipe_Some [OF Some], simp)+
        from "1.IH" [OF True Some l r "1.prems"(3)] update_pipe_other_slot [OF ki, of g q] Some True
        show ?thesis
          by (simp add: pipes_loop.simps [of k])
      qed
    qed
  qed
qed

lemma pipes_loop_stale_same:
  assumes "pipes_loop 0 g = Some g'" and "i < length (pipes g)" and "\<not> relevant (pipes g ! i)"
  shows "pipes g' ! i = pipes g ! i"
  using pipes_loop_Some [OF assms(1)] assms(2,3) by (simp add: slot_after_def)

section \<open>The steps of \<^verbatim>\<open>update_game\<close>\<close>

lemma create_pipe_Some:
  assumes "create_pipe r g = Some g1"
  shows "g1 = g\<lparr> pipes := (pipes g)[nat (next_pipe g) := new_pipe r],
                 next_pipe := c_mod (next_pipe g + 1) (int MAX_PIPES) \<rparr>"
    and "0 \<le> next_pipe g" and "next_pipe g < int MAX_PIPES"
  using assms by (auto simp: create_pipe_def split: if_splits)

lemma spawn_step_Some:
  assumes "spawn_step t r g = Some g1"
  shows "bird g1 = bird g" and "score g1 = score g" and "game_over g1 = game_over g"
    and "length (pipes g1) = length (pipes g)"
    and "\<not> (t - last_pipe_time g > PIPE_SPAWN_TIME \<and> int j = next_pipe g)
         \<Longrightarrow> pipes g1 ! j = pipes g ! j"
  using assms
  by (auto simp: spawn_step_def create_pipe_def split: if_splits bind_splits)

lemma new_pipe_fresh: "pipe_x (new_pipe r) = SCREEN_WIDTH" "\<not> passed (new_pipe r)"
  by (simp_all add: new_pipe_def Let_def)

lemma spawn_step_slot:
  assumes "spawn_step t r g = Some g1" and "t - last_pipe_time g > PIPE_SPAWN_TIME"
    and "int i = next_pipe g" and "i < length (pipes g)"
  shows "pipes g1 ! i = new_pipe r"
proof -
  have "nat (next_pipe g) = i" using assms(3) by simp
  then show ?thesis
    using assms(1,2,4)
    by (auto simp: spawn_step_def create_pipe_def split: if_splits bind_splits)
qed

lemma bird_step_Some:
  assumes "bird_step rnd g = Some g2"
  shows "pipes g2 = pipes g" and "score g2 = score g" and "game_over g2 = game_over g"
    and "next_pipe g2 = next_pipe g" and "last_pipe_time g2 = last_pipe_time g"
    and "bird_x (bird g2) = bird_x (bird g)"
    and "rect_x (rect (bird g2)) = rect_x (rect (bird g))"
    and "rect_w (rect (bird g2)) = rect_w (rect (bird g))"
    and "rect_h (rect (bird g2)) = rect_h (rect (bird g))"
  using assms
  by (auto simp: bird_step_def Let_def split: if_splits bind_splits)

lemma ground_check_Some:
  assumes "ground_check g = Some g3"
  shows "bird g3 = bird g" and "pipes g3 = pipes g" and "score g3 = score g"
    and "next_pipe g3 = next_pipe g" and "last_pipe_time g3 = last_pipe_time g"
    and "game_over g3 \<longleftrightarrow> game_over g \<or>
           rect_y (rect (bird g)) + rect_h (rect (bird g)) > SCREEN_HEIGHT - 20"
  using assms
  by (auto simp: ground_check_def c_int_Some split: if_splits bind_splits)

lemma update_game_Some:
  assumes "update_game rnd t r g = Some g'"
  obtains g1 g2 g3 where "spawn_step t r g = Some g1" and "bird_step rnd g1 = Some g2"
    and "ground_check g2 = Some g3" and "pipes_loop 0 g3 = Some g'"
  using assms by (auto simp: update_game_def split: bind_splits)

text \<open>The bird that an update leaves is the one the bird step computes from the old one.\<close>

lemma bird_step_bird:
  "bird g1 = bird g \<Longrightarrow> map_option bird (bird_step rnd g1) = map_option bird (bird_step rnd g)"
  by (simp add: bird_step_def Let_def split: bind_splits)

lemma update_game_bird:
  assumes "update_game rnd t r g = Some g'"
  shows "map_option bird (bird_step rnd g) = Some (bird g')"
proof -
  from assms obtain g1 g2 g3 where s: "spawn_step t r g = Some g1"
    and b: "bird_step rnd g1 = Some g2" and gr: "ground_check g2 = Some g3"
    and l: "pipes_loop 0 g3 = Some g'"
    by (rule update_game_Some)
  have "bird g' = bird g2"
    using pipes_loop_Some [OF l] ground_check_Some(1) [OF gr] by simp
  moreover have "map_option bird (bird_step rnd g) = map_option bird (bird_step rnd g1)"
    using bird_step_bird [OF spawn_step_Some(1) [OF s]] by simp
  ultimately show ?thesis using b by simp
qed

lemma bird_step_box:
  assumes "bird_step rnd g = Some g2"
  shows "rect_y (rect (bird g2)) = c_trunc (bird_y (bird g2))"
    and "- 1 < bird_y (bird g2)"
proof -
  let ?y = "rnd (bird_y (bird g) + rnd (velocity (bird g) + GRAVITY))"
  show "rect_y (rect (bird g2)) = c_trunc (bird_y (bird g2))"
    using assms
    by (auto simp: bird_step_def Let_def float_to_int_def c_int_Some c_trunc_def
        split: if_splits bind_splits)
  have "\<not> c_trunc ?y < 0 \<Longrightarrow> - 1 < ?y"
    by (auto simp: c_trunc_def split: if_splits)
  then show "- 1 < bird_y (bird g2)"
    using assms
    by (auto simp: bird_step_def Let_def float_to_int_def c_int_Some
        split: if_splits bind_splits)
qed

lemma bird_step_clamp:
  assumes "bird_step rnd g = Some g2"
    and "c_trunc (rnd (bird_y (bird g) + rnd (velocity (bird g) + GRAVITY))) < 0"
  shows "bird_y (bird g2) = 0" and "rect_y (rect (bird g2)) = 0" and "velocity (bird g2) = 0"
  using assms
  by (auto simp: bird_step_def Let_def float_to_int_def c_int_Some split: if_splits bind_splits)

text \<open>
  When the flag is set after an update.  A slot holds \<open>x \<le> 900\<close> after the loop exactly
  when the loop has moved it: a slot it skips keeps \<open>x > 900\<close>, one it moves ends at
  \<open>x \<le> 897\<close>.
\<close>

lemma update_game_over:
  assumes "update_game rnd t r g = Some g'" and "length (pipes g) = MAX_PIPES"
  shows "game_over g' \<longleftrightarrow> game_over g \<or>
           rect_y (rect (bird g')) + rect_h (rect (bird g')) > SCREEN_HEIGHT - 20 \<or>
           (\<exists>i<MAX_PIPES. pipe_x (pipes g' ! i) \<le> SCREEN_WIDTH + 100 \<and>
                hits (rect (bird g')) (pipes g' ! i))"
proof -
  from assms(1) obtain g1 g2 g3 where s: "spawn_step t r g = Some g1"
    and b: "bird_step rnd g1 = Some g2" and gr: "ground_check g2 = Some g3"
    and l: "pipes_loop 0 g3 = Some g'"
    by (rule update_game_Some)
  note L = pipes_loop_Some [OF l]
  have len: "length (pipes g3) = MAX_PIPES"
    using bird_step_Some(1) [OF b] ground_check_Some(2) [OF gr] spawn_step_Some(4) [OF s] assms(2)
    by simp
  have bd: "bird g' = bird g3" "bird g3 = bird g2"
    using L ground_check_Some(1) [OF gr] by simp_all
  have slot: "pipes g' ! i = slot_after (rect (bird g')) (pipes g3 ! i)" if "i < MAX_PIPES" for i
    using L that len by simp
  have rel: "relevant (pipes g3 ! i) \<longleftrightarrow> pipe_x (pipes g' ! i) \<le> SCREEN_WIDTH + 100"
    if "i < MAX_PIPES" for i
    using slot [OF that]
    by (auto simp: slot_after_def relevant_def pipe_after_simps PIPE_SPEED_def)
  have "game_over g3 \<longleftrightarrow> game_over g \<or>
           rect_y (rect (bird g')) + rect_h (rect (bird g')) > SCREEN_HEIGHT - 20"
    using ground_check_Some(6) [OF gr] bird_step_Some(3) [OF b] spawn_step_Some(3) [OF s] bd
    by simp
  moreover have "game_over g' \<longleftrightarrow> game_over g3 \<or>
             (\<exists>j. 0 \<le> j \<and> j < MAX_PIPES \<and> relevant (pipes g3 ! j) \<and>
                  hits (rect (bird g3)) (slot_after (rect (bird g3)) (pipes g3 ! j)))"
    using L by blast
  moreover have "(\<exists>j. 0 \<le> j \<and> j < MAX_PIPES \<and> relevant (pipes g3 ! j) \<and>
                  hits (rect (bird g3)) (slot_after (rect (bird g3)) (pipes g3 ! j))) \<longleftrightarrow>
        (\<exists>i<MAX_PIPES. pipe_x (pipes g' ! i) \<le> SCREEN_WIDTH + 100 \<and>
                hits (rect (bird g')) (pipes g' ! i))"
    using rel slot bd(1) by auto
  ultimately show ?thesis by simp
qed

text \<open>The parts of an update do not read the slot that is replaced.\<close>

lemma spawn_step_other_slot:
  assumes "\<not> (t - last_pipe_time g > PIPE_SPAWN_TIME \<and> next_pipe g = int i)"
  shows "spawn_step t r (g\<lparr> pipes := (pipes g)[i := q] \<rparr>) =
         map_option (\<lambda>g'. g'\<lparr> pipes := (pipes g')[i := q] \<rparr>) (spawn_step t r g)"
proof -
  have "nat (next_pipe g) \<noteq> i" if "0 \<le> next_pipe g" "next_pipe g \<noteq> int i"
    using that by auto
  then show ?thesis
    using assms
    by (auto simp: spawn_step_def create_pipe_def list_update_swap split: bind_splits)
qed

lemma bird_step_pipes:
  "bird_step rnd (g\<lparr> pipes := ps \<rparr>) = map_option (\<lambda>g'. g'\<lparr> pipes := ps \<rparr>) (bird_step rnd g)"
  by (auto simp: bird_step_def Let_def split: bind_splits)

lemma ground_check_pipes:
  "ground_check (g\<lparr> pipes := ps \<rparr>) = map_option (\<lambda>g'. g'\<lparr> pipes := ps \<rparr>) (ground_check g)"
  by (auto simp: ground_check_def split: bind_splits)

lemma update_game_stale_slot:
  assumes "i < length (pipes g)" and "\<not> relevant (pipes g ! i)" and "\<not> relevant q"
    and "\<not> (t - last_pipe_time g > PIPE_SPAWN_TIME \<and> next_pipe g = int i)"
  shows "update_game rnd t r (g\<lparr> pipes := (pipes g)[i := q] \<rparr>) =
         map_option (\<lambda>g'. g'\<lparr> pipes := (pipes g')[i := q] \<rparr>) (update_game rnd t r g)"
proof (cases "spawn_step t r g")
  case None
  with spawn_step_other_slot [OF assms(4), of r q] show ?thesis by (simp add: update_game_def)
next
  case s: (Some g1)
  have p1: "pipes g1 ! i = pipes g ! i" "length (pipes g1) = length (pipes g)"
    using spawn_step_Some(4) [OF s] spawn_step_Some(5) [OF s, of i] assms(4) by auto
  show ?thesis
  proof (cases "bird_step rnd g1")
    case None
    with spawn_step_other_slot [OF assms(4), of r q] s show ?thesis
      by (simp add: update_game_def bird_step_pipes)
  next
    case b: (Some g2)
    show ?thesis
    proof (cases "ground_check g2")
      case None
      with spawn_step_other_slot [OF assms(4), of r q] s b bird_step_Some(1) [OF b] show ?thesis
        by (simp add: update_game_def bird_step_pipes ground_check_pipes)
    next
      case gr: (Some g3)
      have p3: "pipes g3 = pipes g1"
        using bird_step_Some(1) [OF b] ground_check_Some(2) [OF gr] by simp
      have "pipes_loop 0 (g3\<lparr> pipes := (pipes g3)[i := q] \<rparr>) =
         map_option (\<lambda>g'. g'\<lparr> pipes := (pipes g')[i := q] \<rparr>) (pipes_loop 0 g3)"
        using assms(1,2,3) p1 p3 by (intro pipes_loop_stale_slot) simp_all
      with spawn_step_other_slot [OF assms(4), of r q] s b gr bird_step_Some(1) [OF b] p3
      show ?thesis
        by (simp add: update_game_def bird_step_pipes ground_check_pipes)
    qed
  qed
qed

subsection \<open>The update is defined on every state far from the limits of \<^verbatim>\<open>int\<close>\<close>

lemma spawn_step_defined:
  "0 \<le> next_pipe g \<Longrightarrow> next_pipe g < int MAX_PIPES \<Longrightarrow> spawn_step t r g \<noteq> None"
  by (simp add: spawn_step_def create_pipe_def)

lemma update_pipe_defined:
  assumes "pipe_small (pipes g ! i)" and "rect_small (rect (bird g))" and "- (2 ^ 20) \<le> score g \<and> score g \<le> 2 ^ 20 + 10"
  shows "update_pipe i g \<noteq> None"
proof -
  let ?p = "pipes g ! i"
  have x: "c_int (pipe_x ?p - PIPE_SPEED) = Some (pipe_x ?p - PIPE_SPEED)"
    "c_int (pipe_x ?p - PIPE_SPEED + PIPE_WIDTH) = Some (pipe_x ?p - PIPE_SPEED + PIPE_WIDTH)"
    "c_int (score g + 1) = Some (score g + 1)"
    using assms by (simp_all add: pipe_small_def small_def c_int_def INT_MIN_def INT_MAX_def
        PIPE_SPEED_def PIPE_WIDTH_def)
  have f: "rect_fits (rect (bird g))" using assms(2) by (rule rect_small_fits)
  have "rect_fits ((top_rect ?p)\<lparr> rect_x := pipe_x ?p - PIPE_SPEED \<rparr>)"
       "rect_fits ((bottom_rect ?p)\<lparr> rect_x := pipe_x ?p - PIPE_SPEED \<rparr>)"
    using assms(1)
    by (simp_all add: pipe_small_def rect_small_def small_def rect_fits_def rect_right_def
        rect_bottom_def c_int_def INT_MIN_def INT_MAX_def PIPE_SPEED_def)
  then show ?thesis
    using x f by (simp add: update_pipe_def Let_def check_collision_eq)
qed

lemma pipes_loop_defined:
  assumes "\<forall>j. i \<le> j \<and> j < MAX_PIPES \<longrightarrow> pipe_small (pipes g ! j)"
    and "rect_small (rect (bird g))"
    and "- (2 ^ 20) \<le> score g \<and> score g \<le> 2 ^ 20 + int i" and "length (pipes g) = MAX_PIPES"
  shows "pipes_loop i g \<noteq> None"
  using assms
proof (induction i g rule: pipes_loop.induct)
  case (1 i g)
  show ?case
  proof (cases "i < MAX_PIPES")
    case False
    then show ?thesis by (simp add: pipes_loop.simps)
  next
    case True
    have "- (2 ^ 20) \<le> score g \<and> score g \<le> 2 ^ 20 + 10"
      using "1.prems"(3) True by (simp add: MAX_PIPES_def)
    with update_pipe_defined [of g i] "1.prems" True
    obtain g1 where g1: "update_pipe i g = Some g1" by auto
    note u = update_pipe_Some [OF g1]
    have b: "bird g1 = bird g" and l: "length (pipes g1) = length (pipes g)"
      by (subst u, simp)+
    have sc: "- (2 ^ 20) \<le> score g1 \<and> score g1 \<le> 2 ^ 20 + int (i + 1)"
      using "1.prems"(3) by (subst (1 2) u) auto
    have ps: "\<forall>j. i + 1 \<le> j \<and> j < MAX_PIPES \<longrightarrow> pipe_small (pipes g1 ! j)"
      using "1.prems"(1) by (subst u) simp
    from "1.IH" [OF True g1 ps] b "1.prems"(2) sc l "1.prems"(4) g1 True
    show ?thesis by (simp add: pipes_loop.simps [of i])
  qed
qed

lemma new_pipe_small: "pipe_small (new_pipe r)"
  using c_mod_bounds [of 330 r]
  by (simp add: new_pipe_def Let_def pipe_small_def rect_small_def small_def game_consts c_div_pos)

lemma update_game_defined:
  assumes "sane g"
    and "small (c_trunc (rnd (bird_y (bird g) + rnd (velocity (bird g) + GRAVITY))))"
  shows "\<exists>g'. update_game rnd t r g = Some g'"
proof -
  obtain g1 where s: "spawn_step t r g = Some g1"
    using assms(1) spawn_step_defined [of g t r] by (auto simp: sane_def)
  have p1: "\<forall>j<MAX_PIPES. pipe_small (pipes g1 ! j)"
    using s assms(1) new_pipe_small [of r]
    by (auto simp: sane_def spawn_step_def create_pipe_def nth_list_update split: if_splits)
  have b1: "bird g1 = bird g" "score g1 = score g" "length (pipes g1) = MAX_PIPES"
    using spawn_step_Some [OF s] assms(1) by (simp_all add: sane_def)
  obtain g2 where b: "bird_step rnd g1 = Some g2"
    using assms(2) b1(1)
    by (auto simp: bird_step_def Let_def float_to_int_def c_int_def small_def INT_MIN_def INT_MAX_def)
  have r2: "rect_small (rect (bird g2))"
    using b assms b1(1)
    by (auto simp: bird_step_def Let_def float_to_int_def c_int_Some sane_def rect_small_def
        small_def split: if_splits bind_splits)
  obtain g3 where gr: "ground_check g2 = Some g3"
    using r2 by (auto simp: ground_check_def rect_small_def small_def c_int_def INT_MIN_def INT_MAX_def)
  have "pipes_loop 0 g3 \<noteq> None"
  proof (rule pipes_loop_defined)
    show "\<forall>j. 0 \<le> j \<and> j < MAX_PIPES \<longrightarrow> pipe_small (pipes g3 ! j)"
      using p1 bird_step_Some(1) [OF b] ground_check_Some(2) [OF gr] by simp
    show "rect_small (rect (bird g3))"
      using r2 ground_check_Some(1) [OF gr] by simp
    show "- (2 ^ 20) \<le> score g3 \<and> score g3 \<le> 2 ^ 20 + int 0"
      using assms(1) b1(2) bird_step_Some(2) [OF b] ground_check_Some(3) [OF gr]
      by (simp add: sane_def small_def)
    show "length (pipes g3) = MAX_PIPES"
      using b1(3) bird_step_Some(1) [OF b] ground_check_Some(2) [OF gr] by simp
  qed
  with s b gr show ?thesis by (auto simp: update_game_def)
qed

section \<open>\<^verbatim>\<open>reset_game\<close> and the events\<close>

declare reset_pipes.simps [simp del]

lemma reset_pipes_nth:
  "length (reset_pipes i ps) = length ps \<and>
   (\<forall>j<length ps. reset_pipes i ps ! j =
      (if i \<le> j \<and> j < MAX_PIPES then (ps ! j)\<lparr> pipe_x := SCREEN_WIDTH * 2 \<rparr> else ps ! j))"
proof (induction i ps rule: reset_pipes.induct)
  case (1 i ps)
  show ?case
  proof (cases "i < MAX_PIPES")
    case False
    then show ?thesis by (subst (1 2) reset_pipes.simps) auto
  next
    case True
    have "i \<le> j \<longleftrightarrow> j = i \<or> i + 1 \<le> j" for j by auto
    with "1.IH" [OF True] True show ?thesis
      by (subst (1 2) reset_pipes.simps) (auto simp: nth_list_update)
  qed
qed

lemma handle_event_jump:
  "is_jump e \<Longrightarrow> handle_event (e, now) (g, quit) = (jump_or_restart now g, quit)"
  by (cases "((e, now), (g, quit))" rule: handle_event.cases) auto

lemma handle_event_no_jump:
  "\<not> is_jump e \<Longrightarrow> fst (handle_event (e, now) (g, quit)) = g"
  by (cases "((e, now), (g, quit))" rule: handle_event.cases) auto

lemma handle_event_running:
  assumes "\<not> game_over g"
  shows "\<not> game_over (fst (handle_event en (g, quit)))"
    and "is_jump (fst en) \<or> velocity (bird g) = JUMP_FORCE
         \<Longrightarrow> velocity (bird (fst (handle_event en (g, quit)))) = JUMP_FORCE"
  using assms
  by (cases "(en, (g, quit))" rule: handle_event.cases; simp add: jump_or_restart_def)+

lemma poll_events_jump:
  assumes "\<not> game_over g"
    and "(\<exists>en\<in>set evs. is_jump (fst en)) \<or> velocity (bird g) = JUMP_FORCE"
  shows "velocity (bird (fst (poll_events evs (g, quit)))) = JUMP_FORCE"
  using assms
proof (induction evs arbitrary: g quit)
  case Nil
  then show ?case by simp
next
  case (Cons en evs)
  obtain g1 q1 where h: "handle_event en (g, quit) = (g1, q1)" by (cases "handle_event en (g, quit)")
  have 1: "\<not> game_over g1"
    using handle_event_running(1) [OF Cons.prems(1), of en quit] h by simp
  have 2: "(\<exists>en\<in>set evs. is_jump (fst en)) \<or> velocity (bird g1) = JUMP_FORCE"
    using handle_event_running(2) [OF Cons.prems(1), of en quit] h Cons.prems(2) by auto
  from Cons.IH [OF 1 2] h show ?case by simp
qed

lemma poll_events_no_jump:
  assumes "\<forall>en\<in>set evs. \<not> is_jump (fst en)"
  shows "fst (poll_events evs (g, quit)) = g"
  using assms
proof (induction evs arbitrary: quit)
  case Nil
  then show ?case by simp
next
  case (Cons en evs)
  obtain g1 q1 where h: "handle_event en (g, quit) = (g1, q1)" by (cases "handle_event en (g, quit)")
  have "g1 = g"
    using handle_event_no_jump [of "fst en" "snd en" g quit] Cons.prems h by simp
  with Cons.IH [of q1] Cons.prems h show ?case by simp
qed

lemma main_iteration_frozen:
  assumes "game_over g" and "\<forall>en\<in>set (events inp). \<not> is_jump (fst en)"
  shows "\<exists>quit'. main_iteration rnd inp (g, quit) = Some (g, quit')"
proof -
  obtain g1 q1 where p: "poll_events (events inp) (g, quit) = (g1, q1)"
    by (cases "poll_events (events inp) (g, quit)")
  have "g1 = g" using poll_events_no_jump [OF assms(2), of g quit] p by simp
  with p assms(1) show ?thesis by (simp add: main_iteration_def)
qed

lemma main_loop_frozen:
  assumes "game_over g" and "\<forall>inp\<in>set inps. \<forall>en\<in>set (events inp). \<not> is_jump (fst en)"
  shows "\<exists>quit'. main_loop rnd inps (g, quit) = Some (g, quit')"
  using assms
proof (induction inps arbitrary: quit)
  case Nil
  then show ?case by simp
next
  case (Cons inp inps)
  from main_iteration_frozen [OF Cons.prems(1), of inp rnd quit] Cons.prems(2)
  obtain q1 where 1: "main_iteration rnd inp (g, quit) = Some (g, q1)" by auto
  from Cons.IH [OF Cons.prems(1), of q1] Cons.prems(2)
  obtain q2 where 2: "main_loop rnd inps (g, q1) = Some (g, q2)" by auto
  from 1 2 show ?case by (cases quit) auto
qed

section \<open>The examples, evaluated\<close>

lemmas example_states =
  playing_def in_flight_def stale_pipe_def zero_pipe_def zero_rect_def pipe_at_def exact_def

lemmas update_game_steps =
  update_game_def spawn_step_def create_pipe_def new_pipe_def bird_step_def ground_check_def
  pipes_loop.simps update_pipe_def check_collision_def float_to_int_def c_trunc_def
  c_int_def INT_MIN_def INT_MAX_def c_div_def c_mod_def Let_def game_consts

lemma first_reset: "reset_game 0 program_start = in_flight 300 0 300"
  by (simp add: reset_game_def program_start_def reset_pipes.simps example_states
      c_div_def c_trunc_def game_consts)

lemma first_frame:
  "update_game exact 16 0 (in_flight 300 0 300) = Some (in_flight (1502 / 5) (2 / 5) 300)"
  by (simp add: example_states update_game_steps)

lemma last_frame_of_climb:
  "update_game exact 640 0 (in_flight (34 / 5) (- 8) 6) =
     Some (in_flight (- (4 / 5)) (- (38 / 5)) 0)"
  by (simp add: example_states update_game_steps)

lemma frame_of_passing:
  "update_game exact 1000 7
     (playing 300 0 300 (pipe_at 140 300 False) (pipe_at 422 200 False) 2 4 False) =
   Some (playing (1502 / 5) (2 / 5) 300 (pipe_at 137 300 True) (pipe_at 419 200 False) 2 5 False)"
  by (simp add: example_states update_game_steps)

lemma frame_at_ceiling:
  "update_game exact 16 0 (in_flight 2 (- 8) 2) = Some (in_flight 0 0 0)"
  by (simp add: example_states update_game_steps)

lemma frame_at_ground:
  "update_game exact 16 0 (in_flight (5697 / 10) 0 569) =
     Some (playing (5701 / 10) (2 / 5) 570 stale_pipe stale_pipe 0 0 True)"
  by (simp add: example_states update_game_steps)

lemma climb_run:
  "main_loop exact (frames_from 16 climb) (in_flight 300 0 300, False) =
     Some (in_flight (34 / 5) (- (38 / 5)) 6, False)"
  by (simp add: climb_def example_states update_game_steps main_iteration_def
      jump_or_restart_def)

section \<open>The bird\<close>

text \<open>
  Claim C1, as amended.  After the bird step of an update (velocity plus gravity, \<open>y\<close>
  plus velocity, the clamp at the ceiling), the row of the bird's box is \<open>y\<close> with its
  fraction dropped towards zero, which is what the cast of line 252 computes, and \<open>y\<close> is
  above \<open>-1\<close>.  The row is the floor of \<open>y\<close> when \<open>y\<close> is not negative; when \<open>y\<close> is
  negative the row is 0 and the floor is \<open>-1\<close>.
\<close>

theorem bird_box_truncates:
  assumes "update_game rnd t r g = Some g'"
  shows "map_option bird (bird_step rnd g) = Some (bird g') \<and>
         rect_y (rect (bird g')) = c_trunc (bird_y (bird g')) \<and>
         - 1 < bird_y (bird g') \<and>
         (0 \<le> bird_y (bird g') \<longrightarrow> rect_y (rect (bird g')) = \<lfloor>bird_y (bird g')\<rfloor>) \<and>
         (bird_y (bird g') < 0 \<longrightarrow>
            rect_y (rect (bird g')) = 0 \<and> \<lfloor>bird_y (bird g')\<rfloor> = - 1)"
proof -
  from update_game_bird [OF assms] obtain g2 where
    g2: "bird_step rnd g = Some g2" and b: "bird g' = bird g2" by auto
  note box = bird_step_box [OF g2]
  have "\<lfloor>bird_y (bird g2)\<rfloor> = - 1" "c_trunc (bird_y (bird g2)) = 0" if "bird_y (bird g2) < 0"
    using that box(2) by (auto simp: c_trunc_def) linarith+
  then show ?thesis
    using update_game_bird [OF assms] box b by (auto simp: c_trunc_def)
qed

theorem bird_box_truncates_witness:
  "update_game exact 16 0 (in_flight 300 0 300) = Some (in_flight (1502 / 5) (2 / 5) 300) \<and>
   rect_y (rect (bird (in_flight (1502 / 5) (2 / 5) 300))) =
     c_trunc (bird_y (bird (in_flight (1502 / 5) (2 / 5) 300))) \<and>
   rect_y (rect (bird (in_flight (1502 / 5) (2 / 5) 300))) =
     \<lfloor>bird_y (bird (in_flight (1502 / 5) (2 / 5) 300))\<rfloor> \<and>
   rect_y (rect (bird (in_flight (1502 / 5) (2 / 5) 300))) = 300"
  using bird_box_truncates [OF first_frame] first_frame
  by (simp add: example_states)

text \<open>
  The claim as it stands, with the floor for negative \<open>y\<close> as well, fails.  From the first
  \<^verbatim>\<open>reset_game\<close> the thirty-nine frames of \<open>climb\<close> bring the bird to \<open>y = 6.8\<close>; the
  space bar in the fortieth sets the velocity to \<open>-8\<close>, and the update of that frame ends
  with \<open>y = -0.8\<close> and the box in row 0, where the floor is \<open>-1\<close>.
\<close>

theorem bird_box_floor_counterexample:
  "main_loop exact (frames_from 16 climb) (reset_game 0 program_start, False) =
     Some (in_flight (34 / 5) (- (38 / 5)) 6, False) \<and>
   handle_event (SDL_KEYDOWN SDLK_SPACE, 640) (in_flight (34 / 5) (- (38 / 5)) 6, False) =
     (in_flight (34 / 5) (- 8) 6, False) \<and>
   \<not> game_over (in_flight (34 / 5) (- 8) 6) \<and>
   update_game exact 640 0 (in_flight (34 / 5) (- 8) 6) =
     Some (in_flight (- (4 / 5)) (- (38 / 5)) 0) \<and>
   rect_y (rect (bird (in_flight (- (4 / 5)) (- (38 / 5)) 0))) = 0 \<and>
   \<lfloor>bird_y (bird (in_flight (- (4 / 5)) (- (38 / 5)) 0))\<rfloor> = - 1"
proof -
  have "handle_event (SDL_KEYDOWN SDLK_SPACE, 640) (in_flight (34 / 5) (- (38 / 5)) 6, False) =
     (in_flight (34 / 5) (- 8) 6, False)"
    by (simp add: jump_or_restart_def example_states JUMP_FORCE_def)
  moreover have "\<lfloor>bird_y (bird (in_flight (- (4 / 5)) (- (38 / 5)) 0))\<rfloor> = - 1"
    by (simp add: example_states)
  ultimately show ?thesis
    using climb_run last_frame_of_climb by (simp add: first_reset) (simp add: example_states)
qed

text \<open>
  Claim C4.  When the row computed by the bird step is below 0, the update leaves \<open>y\<close>,
  the row of the box and the velocity at exactly 0.  With the box 30 high the ground check
  does not fire, so after the update the flag is set only if it was set before or the bird
  hits a pipe that the loop has moved.
\<close>

theorem ceiling_clamp:
  assumes "update_game rnd t r g = Some g'"
    and "c_trunc (rnd (bird_y (bird g) + rnd (velocity (bird g) + GRAVITY))) < 0"
    and "rect_h (rect (bird g)) = BIRD_HEIGHT"
    and "length (pipes g) = MAX_PIPES"
  shows "bird_y (bird g') = 0 \<and> rect_y (rect (bird g')) = 0 \<and> velocity (bird g') = 0 \<and>
         (game_over g' \<longleftrightarrow> game_over g \<or>
            (\<exists>i<MAX_PIPES. pipe_x (pipes g' ! i) \<le> SCREEN_WIDTH + 100 \<and>
                hits (rect (bird g')) (pipes g' ! i)))"
proof -
  from update_game_bird [OF assms(1)] obtain g2 where
    g2: "bird_step rnd g = Some g2" and b: "bird g' = bird g2" by auto
  note c = bird_step_clamp [OF g2 assms(2)]
  have h: "rect_h (rect (bird g')) = BIRD_HEIGHT"
    using bird_step_Some(9) [OF g2] b assms(3) by simp
  have "\<not> rect_y (rect (bird g')) + rect_h (rect (bird g')) > SCREEN_HEIGHT - 20"
    using c(2) h b by (simp add: BIRD_HEIGHT_def SCREEN_HEIGHT_def)
  then show ?thesis
    using update_game_over [OF assms(1,4)] c b by simp
qed

theorem ceiling_clamp_witness:
  "update_game exact 16 0 (in_flight 2 (- 8) 2) = Some (in_flight 0 0 0) \<and>
   c_trunc (exact (bird_y (bird (in_flight 2 (- 8) 2)) +
                   exact (velocity (bird (in_flight 2 (- 8) 2)) + GRAVITY))) < 0 \<and>
   rect_h (rect (bird (in_flight 2 (- 8) 2))) = BIRD_HEIGHT \<and>
   length (pipes (in_flight 2 (- 8) 2)) = MAX_PIPES \<and>
   bird_y (bird (in_flight 0 0 0)) = 0 \<and> rect_y (rect (bird (in_flight 0 0 0))) = 0 \<and>
   velocity (bird (in_flight 0 0 0)) = 0 \<and> \<not> game_over (in_flight 0 0 0)"
proof -
  have 1: "c_trunc (exact (bird_y (bird (in_flight 2 (- 8) 2)) +
                   exact (velocity (bird (in_flight 2 (- 8) 2)) + GRAVITY))) < 0"
    by (simp add: example_states c_trunc_def GRAVITY_def)
  have 2: "rect_h (rect (bird (in_flight 2 (- 8) 2))) = BIRD_HEIGHT"
    by (simp add: example_states BIRD_HEIGHT_def)
  have 3: "length (pipes (in_flight 2 (- 8) 2)) = MAX_PIPES"
    by (simp add: example_states MAX_PIPES_def)
  have 4: "\<not> game_over (in_flight 0 0 0)"
    by (simp add: example_states)
  from ceiling_clamp [OF frame_at_ceiling 1 2 3] frame_at_ceiling 1 2 3 4 show ?thesis
    by simp
qed

text \<open>
  Claim C5.  The bird an update leaves is the one the bird step computes; when the row
  of its box plus the height of the box is above \<open>SCREEN_HEIGHT - 20 = 580\<close>, the update
  ends with the flag set.  So does a box in row 570 that is 30 high.
\<close>

theorem ground_ends_game:
  assumes "update_game rnd t r g = Some g'"
  shows "map_option bird (bird_step rnd g) = Some (bird g') \<and>
         (rect_y (rect (bird g')) + rect_h (rect (bird g')) > SCREEN_HEIGHT - 20
            \<longrightarrow> game_over g') \<and>
         (rect_y (rect (bird g')) = 570 \<and> rect_h (rect (bird g')) = 30 \<longrightarrow> game_over g')"
proof -
  from assms(1) obtain g1 g2 g3 where s: "spawn_step t r g = Some g1"
    and b: "bird_step rnd g1 = Some g2" and gr: "ground_check g2 = Some g3"
    and l: "pipes_loop 0 g3 = Some g'"
    by (rule update_game_Some)
  note L = pipes_loop_Some [OF l]
  have bd: "bird g' = bird g2"
    using L ground_check_Some(1) [OF gr] by simp
  have "game_over g3 \<Longrightarrow> game_over g'"
    using L by blast
  then have "rect_y (rect (bird g')) + rect_h (rect (bird g')) > SCREEN_HEIGHT - 20
      \<Longrightarrow> game_over g'"
    using ground_check_Some(6) [OF gr] bd by simp
  then show ?thesis
    using update_game_bird [OF assms] by (auto simp: SCREEN_HEIGHT_def)
qed

theorem ground_ends_game_witness:
  "update_game exact 16 0 (in_flight (5697 / 10) 0 569) =
     Some (playing (5701 / 10) (2 / 5) 570 stale_pipe stale_pipe 0 0 True) \<and>
   rect_y (rect (bird (playing (5701 / 10) (2 / 5) 570 stale_pipe stale_pipe 0 0 True))) = 570 \<and>
   rect_h (rect (bird (playing (5701 / 10) (2 / 5) 570 stale_pipe stale_pipe 0 0 True))) = 30 \<and>
   \<not> game_over (in_flight (5697 / 10) 0 569) \<and>
   game_over (playing (5701 / 10) (2 / 5) 570 stale_pipe stale_pipe 0 0 True)"
proof -
  have "rect_y (rect (bird (playing (5701 / 10) (2 / 5) 570 stale_pipe stale_pipe 0 0 True))) = 570"
    "rect_h (rect (bird (playing (5701 / 10) (2 / 5) 570 stale_pipe stale_pipe 0 0 True))) = 30"
    "\<not> game_over (in_flight (5697 / 10) 0 569)"
    by (simp_all add: in_flight_def playing_def)
  with ground_ends_game [OF frame_at_ground] frame_at_ground show ?thesis
    by simp
qed

section \<open>The score\<close>

lemma sum_indicator_card:
  "(\<Sum>j = 0..<(n::nat). if P j then 1 else 0) = int (card {j. j < n \<and> P j})"
proof -
  have "{j. j < n \<and> P j} = {j \<in> {0..<n}. P j}" by auto
  then show ?thesis by (simp add: sum.If_cases Int_def)
qed

text \<open>
  Claim C2.  Let \<open>g1\<close> be the state once the update has spawned its pipe, if one is due;
  it differs from the state before only in the slot spawned.  A slot with
  \<open>x \<le> SCREEN_WIDTH + 100\<close> then moves left by \<open>PIPE_SPEED\<close>, and is marked passed after
  the update exactly when it was marked before or its right edge \<open>x + PIPE_WIDTH\<close>, once
  moved, is left of the bird's box; the other slots are untouched.  The score grows by
  the number of slots whose mark goes from false to true, one for each, so a slot
  already marked adds nothing and the score never decreases.  In terms of the state
  before the update: a slot with \<open>x \<le> SCREEN_WIDTH + 100\<close> that is not marked and whose
  right edge ends left of the bird's box ends marked; and when the bird's box is not
  right of a pipe that has just spawned and moved (\<open>x \<le> 857\<close>, as for the box at 200 that
  \<^verbatim>\<open>reset_game\<close> sets), the score grows by the number of slots not marked before and
  marked after.
\<close>

theorem score_step:
  assumes "update_game rnd t r g = Some g'" and "length (pipes g) = MAX_PIPES"
  shows "(\<exists>g1. spawn_step t r g = Some g1 \<and>
     (\<forall>i<MAX_PIPES. \<not> (t - last_pipe_time g > PIPE_SPAWN_TIME \<and> int i = next_pipe g)
        \<longrightarrow> pipes g1 ! i = pipes g ! i) \<and>
     (\<forall>i<MAX_PIPES.
        if pipe_x (pipes g1 ! i) \<le> SCREEN_WIDTH + 100
        then pipe_x (pipes g' ! i) = pipe_x (pipes g1 ! i) - PIPE_SPEED \<and>
             (passed (pipes g' ! i) \<longleftrightarrow> passed (pipes g1 ! i) \<or>
                pipe_x (pipes g' ! i) + PIPE_WIDTH < rect_x (rect (bird g')))
        else pipes g' ! i = pipes g1 ! i) \<and>
     score g' = score g +
       int (card {i. i < MAX_PIPES \<and> \<not> passed (pipes g1 ! i) \<and> passed (pipes g' ! i)})) \<and>
     score g \<le> score g' \<and>
     (\<forall>i<MAX_PIPES.
        pipe_x (pipes g ! i) \<le> SCREEN_WIDTH + 100 \<and> \<not> passed (pipes g ! i) \<and>
        pipe_x (pipes g' ! i) + PIPE_WIDTH < rect_x (rect (bird g'))
        \<longrightarrow> passed (pipes g' ! i)) \<and>
     (rect_x (rect (bird g)) \<le> SCREEN_WIDTH - PIPE_SPEED + PIPE_WIDTH \<longrightarrow>
        score g' = score g +
          int (card {i. i < MAX_PIPES \<and> \<not> passed (pipes g ! i) \<and> passed (pipes g' ! i)}))"
proof -
  from assms(1) obtain g1 g2 g3 where s: "spawn_step t r g = Some g1"
    and b: "bird_step rnd g1 = Some g2" and gr: "ground_check g2 = Some g3"
    and l: "pipes_loop 0 g3 = Some g'"
    by (rule update_game_Some)
  note L = pipes_loop_Some [OF l]
  have ps: "pipes g3 = pipes g1"
    using bird_step_Some(1) [OF b] ground_check_Some(2) [OF gr] by simp
  have len: "length (pipes g3) = MAX_PIPES"
    using ps spawn_step_Some(4) [OF s] assms(2) by simp
  have sc: "score g3 = score g"
    using spawn_step_Some(2) [OF s] bird_step_Some(2) [OF b] ground_check_Some(3) [OF gr] by simp
  have bx: "rect_x (rect (bird g')) = rect_x (rect (bird g3))"
    using L by simp
  have slot: "pipes g' ! i = slot_after (rect (bird g3)) (pipes g1 ! i)" if "i < MAX_PIPES" for i
    using L that len ps by simp
  have flip: "\<not> passed (pipes g1 ! i) \<and> passed (pipes g' ! i) \<longleftrightarrow>
      relevant (pipes g1 ! i) \<and> scores (rect (bird g3)) (pipes g1 ! i)" if "i < MAX_PIPES" for i
    using slot [OF that] by (auto simp: slot_after_def pipe_after_simps scores_def)
  have "score g' = score g + (\<Sum>j = 0..<MAX_PIPES.
      if relevant (pipes g1 ! j) \<and> scores (rect (bird g3)) (pipes g1 ! j) then 1 else 0)"
    using L sc ps by simp
  also have "(\<Sum>j = 0..<MAX_PIPES.
      if relevant (pipes g1 ! j) \<and> scores (rect (bird g3)) (pipes g1 ! j) then 1 else 0) =
      int (card {j. j < MAX_PIPES \<and> relevant (pipes g1 ! j) \<and> scores (rect (bird g3)) (pipes g1 ! j)})"
    by (rule sum_indicator_card)
  also have "{j. j < MAX_PIPES \<and> relevant (pipes g1 ! j) \<and> scores (rect (bird g3)) (pipes g1 ! j)} =
      {i. i < MAX_PIPES \<and> \<not> passed (pipes g1 ! i) \<and> passed (pipes g' ! i)}"
    using flip by auto
  finally have count: "score g' = score g +
       int (card {i. i < MAX_PIPES \<and> \<not> passed (pipes g1 ! i) \<and> passed (pipes g' ! i)})" .
  have each: "if pipe_x (pipes g1 ! i) \<le> SCREEN_WIDTH + 100
        then pipe_x (pipes g' ! i) = pipe_x (pipes g1 ! i) - PIPE_SPEED \<and>
             (passed (pipes g' ! i) \<longleftrightarrow> passed (pipes g1 ! i) \<or>
                pipe_x (pipes g' ! i) + PIPE_WIDTH < rect_x (rect (bird g')))
        else pipes g' ! i = pipes g1 ! i" if "i < MAX_PIPES" for i
    using slot [OF that] bx by (simp add: slot_after_def relevant_def pipe_after_simps)
  have keep: "pipes g1 ! i = pipes g ! i"
    if "\<not> (t - last_pipe_time g > PIPE_SPAWN_TIME \<and> int i = next_pipe g)" for i
    using that by (rule spawn_step_Some(5) [OF s])
  have fresh: "pipes g1 ! i = new_pipe r"
    if "i < MAX_PIPES" and "t - last_pipe_time g > PIPE_SPAWN_TIME \<and> int i = next_pipe g" for i
    using that assms(2) by (intro spawn_step_slot [OF s]) simp_all
  have pre: "passed (pipes g' ! i)"
    if i: "i < MAX_PIPES" and x: "pipe_x (pipes g ! i) \<le> SCREEN_WIDTH + 100"
      and u: "\<not> passed (pipes g ! i)"
      and e: "pipe_x (pipes g' ! i) + PIPE_WIDTH < rect_x (rect (bird g'))" for i
  proof (cases "t - last_pipe_time g > PIPE_SPAWN_TIME \<and> int i = next_pipe g")
    case True
    then have "pipe_x (pipes g1 ! i) \<le> SCREEN_WIDTH + 100"
      using fresh [OF i] by (simp add: new_pipe_fresh)
    with each [OF i] e show ?thesis by simp
  next
    case False
    with each [OF i] keep [of i] x e show ?thesis by simp
  qed
  have bx0: "rect_x (rect (bird g')) = rect_x (rect (bird g))"
    using bx ground_check_Some(1) [OF gr] bird_step_Some(7) [OF b] spawn_step_Some(1) [OF s]
    by simp
  have same_flips:
    "(\<not> passed (pipes g1 ! i) \<and> passed (pipes g' ! i)) \<longleftrightarrow>
     (\<not> passed (pipes g ! i) \<and> passed (pipes g' ! i))"
    if i: "i < MAX_PIPES" and far: "rect_x (rect (bird g)) \<le> SCREEN_WIDTH - PIPE_SPEED + PIPE_WIDTH"
    for i
  proof (cases "t - last_pipe_time g > PIPE_SPAWN_TIME \<and> int i = next_pipe g")
    case True
    have "\<not> passed (pipes g' ! i)"
      using each [OF i] fresh [OF i True] far bx0 by (simp add: new_pipe_fresh)
    then show ?thesis by simp
  next
    case False
    with keep [of i] show ?thesis by simp
  qed
  have count0: "score g' = score g +
      int (card {i. i < MAX_PIPES \<and> \<not> passed (pipes g ! i) \<and> passed (pipes g' ! i)})"
    if far: "rect_x (rect (bird g)) \<le> SCREEN_WIDTH - PIPE_SPEED + PIPE_WIDTH"
  proof -
    have "{i. i < MAX_PIPES \<and> \<not> passed (pipes g1 ! i) \<and> passed (pipes g' ! i)} =
          {i. i < MAX_PIPES \<and> \<not> passed (pipes g ! i) \<and> passed (pipes g' ! i)}"
      using same_flips [OF _ far] by blast
    with count show ?thesis by simp
  qed
  from s keep each count have "\<exists>g1. spawn_step t r g = Some g1 \<and>
     (\<forall>i<MAX_PIPES. \<not> (t - last_pipe_time g > PIPE_SPAWN_TIME \<and> int i = next_pipe g)
        \<longrightarrow> pipes g1 ! i = pipes g ! i) \<and>
     (\<forall>i<MAX_PIPES.
        if pipe_x (pipes g1 ! i) \<le> SCREEN_WIDTH + 100
        then pipe_x (pipes g' ! i) = pipe_x (pipes g1 ! i) - PIPE_SPEED \<and>
             (passed (pipes g' ! i) \<longleftrightarrow> passed (pipes g1 ! i) \<or>
                pipe_x (pipes g' ! i) + PIPE_WIDTH < rect_x (rect (bird g')))
        else pipes g' ! i = pipes g1 ! i) \<and>
     score g' = score g +
       int (card {i. i < MAX_PIPES \<and> \<not> passed (pipes g1 ! i) \<and> passed (pipes g' ! i)})"
    by simp
  moreover have "score g \<le> score g'" using count by simp
  ultimately show ?thesis using pre count0 by blast
qed

text \<open>
  A pipe at \<open>x = 140\<close>: it moves to 137, its right edge 197 is left of the bird at 200,
  and the score goes from 4 to 5.  The pipe at 422 moves and is not passed.
\<close>

theorem score_step_witness:
  "update_game exact 1000 7
     (playing 300 0 300 (pipe_at 140 300 False) (pipe_at 422 200 False) 2 4 False) =
   Some (playing (1502 / 5) (2 / 5) 300 (pipe_at 137 300 True) (pipe_at 419 200 False) 2 5 False) \<and>
   length (pipes (playing 300 0 300 (pipe_at 140 300 False) (pipe_at 422 200 False) 2 4 False)) =
     MAX_PIPES \<and>
   score (playing (1502 / 5) (2 / 5) 300 (pipe_at 137 300 True) (pipe_at 419 200 False) 2 5 False) =
   score (playing 300 0 300 (pipe_at 140 300 False) (pipe_at 422 200 False) 2 4 False) + 1 \<and>
   score (playing 300 0 300 (pipe_at 140 300 False) (pipe_at 422 200 False) 2 4 False) \<le>
   score (playing (1502 / 5) (2 / 5) 300 (pipe_at 137 300 True) (pipe_at 419 200 False) 2 5 False)"
proof -
  have len: "length (pipes (playing 300 0 300 (pipe_at 140 300 False) (pipe_at 422 200 False) 2 4
      False)) = MAX_PIPES"
    by (simp add: playing_def MAX_PIPES_def)
  have "score (playing (1502 / 5) (2 / 5) 300 (pipe_at 137 300 True) (pipe_at 419 200 False) 2 5
      False) = 5"
    "score (playing 300 0 300 (pipe_at 140 300 False) (pipe_at 422 200 False) 2 4 False) = 4"
    by (simp_all add: playing_def)
  with score_step [OF frame_of_passing len] frame_of_passing len show ?thesis
    by simp
qed

section \<open>Reset, jump and game over\<close>

text \<open>
  Claim C6.  Whatever the state before, \<^verbatim>\<open>reset_game\<close> leaves the flag false, the score
  0, the bird at \<open>x = SCREEN_WIDTH / 4\<close> and \<open>y = SCREEN_HEIGHT / 2\<close> with velocity 0 and a
  box of 40 by 30 at (200, 300), each of the ten slots at \<open>x = 2 * SCREEN_WIDTH\<close>, which is
  not left of \<open>SCREEN_WIDTH\<close>, and the time of the last spawn at the current time.
\<close>

theorem reset_game_spec:
  assumes "length (pipes g) = MAX_PIPES"
  shows "\<not> game_over (reset_game now g) \<and> score (reset_game now g) = 0 \<and>
         bird_x (bird (reset_game now g)) = real_of_int SCREEN_WIDTH / 4 \<and>
         bird_y (bird (reset_game now g)) = real_of_int SCREEN_HEIGHT / 2 \<and>
         velocity (bird (reset_game now g)) = 0 \<and>
         rect (bird (reset_game now g)) =
           \<lparr> rect_x = 200, rect_y = 300, rect_w = BIRD_WIDTH, rect_h = BIRD_HEIGHT \<rparr> \<and>
         BIRD_WIDTH = 40 \<and> BIRD_HEIGHT = 30 \<and>
         length (pipes (reset_game now g)) = MAX_PIPES \<and> MAX_PIPES = 10 \<and>
         (\<forall>i<MAX_PIPES. pipe_x (pipes (reset_game now g) ! i) = 2 * SCREEN_WIDTH \<and>
                         pipe_x (pipes (reset_game now g) ! i) \<ge> SCREEN_WIDTH) \<and>
         last_pipe_time (reset_game now g) = now"
proof -
  have "rect (bird (reset_game now g)) =
           \<lparr> rect_x = 200, rect_y = 300, rect_w = BIRD_WIDTH, rect_h = BIRD_HEIGHT \<rparr>"
    by (simp add: reset_game_def Let_def c_div_def c_trunc_def SCREEN_WIDTH_def SCREEN_HEIGHT_def)
  moreover have "\<forall>i<MAX_PIPES. pipe_x (pipes (reset_game now g) ! i) = 2 * SCREEN_WIDTH"
    using assms reset_pipes_nth [of 0 "pipes g"] by (simp add: reset_game_def Let_def)
  moreover have "length (pipes (reset_game now g)) = MAX_PIPES"
    using assms reset_pipes_nth [of 0 "pipes g"] by (simp add: reset_game_def Let_def)
  ultimately show ?thesis
    by (simp add: reset_game_def Let_def c_div_def game_consts)
qed

theorem reset_game_spec_witness:
  "length (pipes program_start) = MAX_PIPES \<and>
   \<not> game_over (reset_game 5000 program_start) \<and> score (reset_game 5000 program_start) = 0 \<and>
   bird_x (bird (reset_game 5000 program_start)) = 200 \<and>
   bird_y (bird (reset_game 5000 program_start)) = 300 \<and>
   velocity (bird (reset_game 5000 program_start)) = 0 \<and>
   rect (bird (reset_game 5000 program_start)) =
     \<lparr> rect_x = 200, rect_y = 300, rect_w = 40, rect_h = 30 \<rparr> \<and>
   pipe_x (pipes (reset_game 5000 program_start) ! 0) = 1600 \<and>
   pipe_x (pipes (reset_game 5000 program_start) ! 9) = 1600 \<and>
   last_pipe_time (reset_game 5000 program_start) = 5000"
proof -
  have len: "length (pipes program_start) = MAX_PIPES"
    by (simp add: program_start_def MAX_PIPES_def)
  note spec = reset_game_spec [OF len, of 5000]
  from spec have "\<forall>i<MAX_PIPES. pipe_x (pipes (reset_game 5000 program_start) ! i) =
      2 * SCREEN_WIDTH \<and> pipe_x (pipes (reset_game 5000 program_start) ! i) \<ge> SCREEN_WIDTH"
    by blast
  then have "pipe_x (pipes (reset_game 5000 program_start) ! 0) = 1600"
    "pipe_x (pipes (reset_game 5000 program_start) ! 9) = 1600"
    by (simp_all add: MAX_PIPES_def SCREEN_WIDTH_def)
  with spec len show ?thesis
    by (simp add: SCREEN_WIDTH_def SCREEN_HEIGHT_def)
qed

text \<open>
  Claim C7.  While the game is not over, a press of the space bar or of the left mouse
  button sets the velocity to exactly \<open>-8\<close>, whatever it was, and leaves everything else
  as it is; the velocity is \<open>-8\<close> at the end of the polling of every tick that has such an
  event in its queue.
\<close>

theorem jump_sets_velocity:
  assumes "\<not> game_over g" and "is_jump e"
  shows "handle_event (e, now) (g, quit) = (g\<lparr> bird := (bird g)\<lparr> velocity := - 8 \<rparr> \<rparr>, quit) \<and>
         ((e, now) \<in> set evs \<longrightarrow> velocity (bird (fst (poll_events evs (g, quit)))) = - 8)"
proof -
  have "(e, now) \<in> set evs \<Longrightarrow> \<exists>en\<in>set evs. is_jump (fst en)"
    using assms(2) by force
  then show ?thesis
    using handle_event_jump [OF assms(2), of now g quit] assms(1)
      poll_events_jump [OF assms(1), of evs quit]
    by (auto simp: jump_or_restart_def JUMP_FORCE_def)
qed

text \<open>From velocity 5 the jump gives \<open>-8\<close>, not \<open>-3\<close>.\<close>

theorem jump_sets_velocity_witness:
  "\<not> game_over (in_flight 300 5 300) \<and> is_jump (SDL_KEYDOWN SDLK_SPACE) \<and>
   velocity (bird (in_flight 300 5 300)) = 5 \<and>
   handle_event (SDL_KEYDOWN SDLK_SPACE, 16) (in_flight 300 5 300, False) =
     (in_flight 300 (- 8) 300, False) \<and>
   velocity (bird (in_flight 300 (- 8) 300)) = - 8"
proof -
  have 1: "\<not> game_over (in_flight 300 5 300)" by (simp add: example_states)
  have 2: "is_jump (SDL_KEYDOWN SDLK_SPACE)" by simp
  have 3: "(in_flight 300 5 300)\<lparr> bird := (bird (in_flight 300 5 300))\<lparr> velocity := - 8 \<rparr> \<rparr> =
      in_flight 300 (- 8) 300"
    "velocity (bird (in_flight 300 5 300)) = 5" "velocity (bird (in_flight 300 (- 8) 300)) = - 8"
    by (simp_all add: example_states)
  from jump_sets_velocity [OF 1 2, of 16 False "[]"] 1 2 3 show ?thesis
    by simp
qed

text \<open>
  Claim C9.  Once the game is over, an iteration of the loop of \<^verbatim>\<open>main\<close> whose events
  hold no press of the space bar or of the left mouse button leaves every global as it is,
  and so does any number of such iterations.  An event changes the globals of a game that
  is over only if it is such a press, and then they become what \<^verbatim>\<open>reset_game\<close> makes
  of them.
\<close>

theorem game_over_frozen:
  assumes "game_over g"
  shows "((\<forall>en\<in>set (events inp). \<not> is_jump (fst en)) \<longrightarrow>
            map_option fst (main_iteration rnd inp (g, quit)) = Some g) \<and>
         ((\<forall>inp\<in>set inps. \<forall>en\<in>set (events inp). \<not> is_jump (fst en)) \<longrightarrow>
            map_option fst (main_loop rnd inps (g, quit)) = Some g) \<and>
         fst (handle_event (e, now) (g, quit)) = (if is_jump e then reset_game now g else g)"
proof -
  have "map_option fst (main_iteration rnd inp (g, quit)) = Some g"
    if "\<forall>en\<in>set (events inp). \<not> is_jump (fst en)"
    using main_iteration_frozen [OF assms that, of rnd quit] by auto
  moreover have "map_option fst (main_loop rnd inps (g, quit)) = Some g"
    if "\<forall>inp\<in>set inps. \<forall>en\<in>set (events inp). \<not> is_jump (fst en)"
    using main_loop_frozen [OF assms that, of rnd quit] by auto
  moreover have "fst (handle_event (e, now) (g, quit)) = (if is_jump e then reset_game now g else g)"
    using assms handle_event_jump [of e now g quit] handle_event_no_jump [of e now g quit]
    by (simp add: jump_or_restart_def)
  ultimately show ?thesis by blast
qed

theorem game_over_frozen_witness:
  "game_over (playing 571 (2 / 5) 570 stale_pipe stale_pipe 0 0 True) \<and>
   \<not> is_jump SDL_other \<and> \<not> is_jump (SDL_KEYDOWN SDLK_other) \<and>
   map_option fst (main_loop exact
       [\<lparr> events = [(SDL_other, 16), (SDL_KEYDOWN SDLK_other, 17)], ticks = 18, rand = 0 \<rparr>,
        \<lparr> events = [], ticks = 34, rand = 0 \<rparr>]
       (playing 571 (2 / 5) 570 stale_pipe stale_pipe 0 0 True, False)) =
     Some (playing 571 (2 / 5) 570 stale_pipe stale_pipe 0 0 True) \<and>
   fst (handle_event (SDL_MOUSEBUTTONDOWN SDL_BUTTON_LEFT, 50)
          (playing 571 (2 / 5) 570 stale_pipe stale_pipe 0 0 True, False)) =
     reset_game 50 (playing 571 (2 / 5) 570 stale_pipe stale_pipe 0 0 True)"
proof -
  have 1: "game_over (playing 571 (2 / 5) 570 stale_pipe stale_pipe 0 0 True)"
    by (simp add: playing_def)
  have 2: "\<forall>inp\<in>set [\<lparr> events = [(SDL_other, 16), (SDL_KEYDOWN SDLK_other, 17)], ticks = 18,
                           rand = 0 \<rparr>,
                         \<lparr> events = [], ticks = 34, rand = 0 \<rparr>].
      \<forall>en\<in>set (events inp). \<not> is_jump (fst en)"
    by simp
  from game_over_frozen [OF 1, of
      _ exact False
      "[\<lparr> events = [(SDL_other, 16), (SDL_KEYDOWN SDLK_other, 17)], ticks = 18, rand = 0 \<rparr>,
        \<lparr> events = [], ticks = 34, rand = 0 \<rparr>]"
      "SDL_MOUSEBUTTONDOWN SDL_BUTTON_LEFT" 50] 1 2
  show ?thesis by simp
qed

section \<open>Spawning\<close>

lemma new_pipe_eq:
  assumes "0 \<le> r"
  shows "new_pipe r =
    \<lparr> pipe_x = 800, gap_y = 135 + r mod 330, passed = False,
      top_rect = \<lparr> rect_x = 800, rect_y = 0, rect_w = 60, rect_h = 135 + r mod 330 - 85 \<rparr>,
      bottom_rect = \<lparr> rect_x = 800, rect_y = 135 + r mod 330 + 85, rect_w = 60,
                      rect_h = 600 - (135 + r mod 330 + 85) \<rparr> \<rparr>"
  using assms by (simp add: new_pipe_def Let_def c_div_pos c_mod_pos game_consts)

text \<open>The values up to \<open>m\<close> in one residue class, counted.\<close>

lemma card_residue:
  fixes n j m :: int
  assumes "0 \<le> j" and "j < n" and "j \<le> m"
  shows "card {r. 0 \<le> r \<and> r \<le> m \<and> r mod n = j} = nat ((m - j) div n + 1)"
proof -
  let ?K = "(m - j) div n"
  have n: "0 < n" using assms by simp
  have K: "0 \<le> ?K" using assms n by (simp add: pos_imp_zdiv_nonneg_iff)
  have "{r. 0 \<le> r \<and> r \<le> m \<and> r mod n = j} = (\<lambda>k. n * k + j) ` {0..?K}"
  proof (intro set_eqI iffI)
    fix r assume "r \<in> {r. 0 \<le> r \<and> r \<le> m \<and> r mod n = j}"
    then have r: "0 \<le> r" "r \<le> m" "r mod n = j" by simp_all
    have "n * (r div n) + r mod n = r" by simp
    then have eq: "r = n * (r div n) + j" using r(3) by simp
    have "0 \<le> r div n" using r(1) n by (simp add: pos_imp_zdiv_nonneg_iff)
    moreover have "r div n \<le> ?K"
    proof -
      have "r - j = n * (r div n)" using eq by simp
      then have "(r - j) div n = r div n" using n by simp
      then have "r div n = (r - j) div n" by simp
      also have "\<dots> \<le> ?K" using r(2) n by (intro zdiv_mono1) simp_all
      finally show ?thesis .
    qed
    ultimately show "r \<in> (\<lambda>k. n * k + j) ` {0..?K}" using eq by auto
  next
    fix r assume "r \<in> (\<lambda>k. n * k + j) ` {0..?K}"
    then obtain k where k: "0 \<le> k" "k \<le> ?K" and r: "r = n * k + j" by auto
    have "n * k \<le> n * ?K" using k n by simp
    also have "\<dots> \<le> m - j"
    proof -
      have "n * ?K + (m - j) mod n = m - j" by simp
      moreover have "0 \<le> (m - j) mod n" using n by simp
      ultimately show ?thesis by linarith
    qed
    finally have "r \<le> m" using r by simp
    moreover have "0 \<le> r" using r k n assms(1) by simp
    moreover have "r mod n = j" using r assms n by simp
    ultimately show "r \<in> {r. 0 \<le> r \<and> r \<le> m \<and> r mod n = j}" by simp
  qed
  moreover have "inj_on (\<lambda>k. n * k + j) {0..?K}" using n by (auto simp: inj_on_def)
  ultimately have "card {r. 0 \<le> r \<and> r \<le> m \<and> r mod n = j} = card {0..?K}"
    by (simp add: card_image)
  then show ?thesis using K by simp
qed

lemma gap_draws_eq:
  assumes "135 \<le> y" and "y < 465" and "y - 135 \<le> m"
  shows "gap_draws m y = nat ((m - (y - 135)) div 330 + 1)"
proof -
  have "{r. 0 \<le> r \<and> r \<le> m \<and> gap_y (new_pipe r) = y} =
        {r. 0 \<le> r \<and> r \<le> m \<and> r mod 330 = y - 135}"
    by (auto simp: new_pipe_eq)
  then show ?thesis
    using assms card_residue [of "y - 135" 330 m] by (simp add: gap_draws_def)
qed

lemma gap_draws_near:
  assumes "135 \<le> y1" and "y1 \<le> y2" and "y2 < 465" and "y2 - 135 \<le> m"
  shows "gap_draws m y2 \<le> gap_draws m y1 \<and> gap_draws m y1 \<le> gap_draws m y2 + 1"
proof -
  have 1: "(m - (y2 - 135)) div 330 \<le> (m - (y1 - 135)) div 330"
    using assms by (intro zdiv_mono1) simp_all
  have "(m - (y1 - 135)) div 330 \<le> (m - (y2 - 135) + 330) div 330"
    using assms by (intro zdiv_mono1) simp_all
  then have 2: "(m - (y1 - 135)) div 330 \<le> (m - (y2 - 135)) div 330 + 1"
    by simp
  have 3: "0 \<le> (m - (y2 - 135)) div 330"
    using assms by (simp add: pos_imp_zdiv_nonneg_iff)
  have "gap_draws m y1 = nat ((m - (y1 - 135)) div 330 + 1)"
       "gap_draws m y2 = nat ((m - (y2 - 135)) div 330 + 1)"
    using assms by (simp_all add: gap_draws_eq)
  with 1 2 3 show ?thesis by arith
qed

text \<open>
  Claim C8, as amended.  The pipe that \<^verbatim>\<open>create_pipe\<close> writes into the slot of the
  cursor, for a value \<open>r \<ge> 0\<close> of \<^verbatim>\<open>rand()\<close>, is at \<open>x = SCREEN_WIDTH = 800\<close> and not
  passed; its gap is at \<open>135 + r mod 330\<close>, inside \<open>[PIPE_GAP / 2 + 50, SCREEN_HEIGHT -
  PIPE_GAP / 2 - 50) = [135, 465)\<close>, and every row of that range is the gap for some
  \<open>r\<close>; the upper box starts at row 0 and is \<open>gap_y - 85\<close> high, the lower box starts at
  \<open>gap_y + 85\<close> and is \<open>600 - (gap_y + 85)\<close> high, so both are at least 50 high; for
  \<open>gap_y = 300\<close> the upper box is 215 high and the lower box starts at 385 and is 215
  high.  The draw is the remainder of \<^verbatim>\<open>rand()\<close> by 330, not a uniform draw: of the
  values \<open>0, \<dots>, m\<close> of \<^verbatim>\<open>rand()\<close>, row \<open>y\<close> gets \<open>(m - (y - 135)) div 330 + 1\<close>, so a
  higher row never gets more than a lower one, and at most one less.
\<close>

theorem create_pipe_spec:
  assumes "create_pipe r g = Some g'" and "0 \<le> r" and "length (pipes g) = MAX_PIPES"
  shows "(pipes g' ! nat (next_pipe g) = new_pipe r \<and>
         pipe_x (new_pipe r) = SCREEN_WIDTH \<and> SCREEN_WIDTH = 800 \<and>
         \<not> passed (new_pipe r) \<and>
         gap_y (new_pipe r) = 135 + r mod 330 \<and>
         PIPE_GAP div 2 + 50 \<le> gap_y (new_pipe r) \<and>
         gap_y (new_pipe r) < SCREEN_HEIGHT - PIPE_GAP div 2 - 50 \<and>
         PIPE_GAP div 2 + 50 = 135 \<and> SCREEN_HEIGHT - PIPE_GAP div 2 - 50 = 465 \<and>
         top_rect (new_pipe r) =
           \<lparr> rect_x = 800, rect_y = 0, rect_w = 60, rect_h = gap_y (new_pipe r) - 85 \<rparr> \<and>
         bottom_rect (new_pipe r) =
           \<lparr> rect_x = 800, rect_y = gap_y (new_pipe r) + 85, rect_w = 60,
             rect_h = 600 - (gap_y (new_pipe r) + 85) \<rparr> \<and>
         50 \<le> rect_h (top_rect (new_pipe r)) \<and> 50 \<le> rect_h (bottom_rect (new_pipe r)) \<and>
         (gap_y (new_pipe r) = 300 \<longrightarrow>
            rect_h (top_rect (new_pipe r)) = 215 \<and> rect_y (bottom_rect (new_pipe r)) = 385 \<and>
            rect_h (bottom_rect (new_pipe r)) = 215) \<and>
         (\<forall>y. 135 \<le> y \<and> y < 465 \<longrightarrow> (\<exists>r'\<ge>0. gap_y (new_pipe r') = y))) \<and>
         (135 \<le> y \<and> y < 465 \<and> y - 135 \<le> m \<longrightarrow>
            gap_draws m y = nat ((m - (y - 135)) div 330 + 1)) \<and>
         (135 \<le> y1 \<and> y1 \<le> y2 \<and> y2 < 465 \<and> y2 - 135 \<le> m \<longrightarrow>
            gap_draws m y2 \<le> gap_draws m y1 \<and> gap_draws m y1 \<le> gap_draws m y2 + 1)"
proof -
  have slot: "pipes g' ! nat (next_pipe g) = new_pipe r"
    using create_pipe_Some [OF assms(1)] assms(3) by (simp add: MAX_PIPES_def)
  have range: "0 \<le> r mod 330" "r mod 330 < 330" by simp_all
  have onto: "\<exists>r'\<ge>0. gap_y (new_pipe r') = y" if "135 \<le> y \<and> y < 465" for y
  proof (intro exI conjI)
    show "0 \<le> y - 135" using that by simp
    then show "gap_y (new_pipe (y - 135)) = y" using that by (simp add: new_pipe_eq)
  qed
  have draws: "135 \<le> y \<and> y < 465 \<and> y - 135 \<le> m \<longrightarrow>
      gap_draws m y = nat ((m - (y - 135)) div 330 + 1)"
    by (simp add: gap_draws_eq)
  have near: "135 \<le> y1 \<and> y1 \<le> y2 \<and> y2 < 465 \<and> y2 - 135 \<le> m \<longrightarrow>
      gap_draws m y2 \<le> gap_draws m y1 \<and> gap_draws m y1 \<le> gap_draws m y2 + 1"
    using gap_draws_near [of y1 y2 m] by blast
  show ?thesis
  proof (intro conjI)
    show "135 \<le> y \<and> y < 465 \<and> y - 135 \<le> m \<longrightarrow>
      gap_draws m y = nat ((m - (y - 135)) div 330 + 1)" by (rule draws)
    show "135 \<le> y1 \<and> y1 \<le> y2 \<and> y2 < 465 \<and> y2 - 135 \<le> m \<longrightarrow>
      gap_draws m y2 \<le> gap_draws m y1 \<and> gap_draws m y1 \<le> gap_draws m y2 + 1" by (rule near)
  qed (use slot range onto in \<open>simp_all add: new_pipe_eq [OF assms(2)] game_consts\<close>)
qed

text \<open>
  The value 165 of \<^verbatim>\<open>rand()\<close> puts the gap at row 300.  Of the values 0 to 659, two do
  (165 and 495).
\<close>

theorem create_pipe_spec_witness:
  "create_pipe 165 (in_flight 300 0 300) =
     Some (playing 300 0 300 (pipe_at 800 300 False) stale_pipe 1 0 False) \<and>
   (0::int) \<le> 165 \<and> length (pipes (in_flight 300 0 300)) = MAX_PIPES \<and>
   pipes (playing 300 0 300 (pipe_at 800 300 False) stale_pipe 1 0 False) !
     nat (next_pipe (in_flight 300 0 300)) = new_pipe 165 \<and>
   gap_y (new_pipe 165) = 300 \<and>
   rect_h (top_rect (new_pipe 165)) = 215 \<and> rect_y (bottom_rect (new_pipe 165)) = 385 \<and>
   rect_h (bottom_rect (new_pipe 165)) = 215 \<and>
   gap_draws 659 300 = 2"
proof -
  have 1: "create_pipe 165 (in_flight 300 0 300) =
     Some (playing 300 0 300 (pipe_at 800 300 False) stale_pipe 1 0 False)"
    by (simp add: create_pipe_def new_pipe_def example_states c_div_def c_mod_def Let_def
        game_consts)
  have 2: "(0::int) \<le> 165" by simp
  have 3: "length (pipes (in_flight 300 0 300)) = MAX_PIPES"
    by (simp add: example_states MAX_PIPES_def)
  note spec = create_pipe_spec [OF 1 2 3, where y = 300 and m = 659]
  from spec have slot:
    "pipes (playing 300 0 300 (pipe_at 800 300 False) stale_pipe 1 0 False) !
       nat (next_pipe (in_flight 300 0 300)) = new_pipe 165"
    by blast
  from spec have "gap_y (new_pipe 165) = 135 + 165 mod 330" by blast
  then have gap: "gap_y (new_pipe 165) = 300" by simp
  from spec have "gap_y (new_pipe 165) = 300 \<longrightarrow>
            rect_h (top_rect (new_pipe 165)) = 215 \<and> rect_y (bottom_rect (new_pipe 165)) = 385 \<and>
            rect_h (bottom_rect (new_pipe 165)) = 215"
    by blast
  moreover from spec have "(135::int) \<le> 300 \<and> (300::int) < 465 \<and> (300::int) - 135 \<le> 659 \<longrightarrow>
      gap_draws 659 300 = nat ((659 - (300 - 135)) div 330 + 1)"
    by blast
  then have "gap_draws 659 300 = 2" by simp
  ultimately show ?thesis using gap 1 2 3 slot by blast
qed

text \<open>
  The claim as it stands, with a uniform draw, fails.  With the \<open>2\<^sup>3\<^sup>1\<close> values of
  \<^verbatim>\<open>rand()\<close> of the C library that the header of the file builds against
  (\<^verbatim>\<open>RAND_MAX\<close> is 2147483647), row 135 is drawn by 6507527 of them and row 464 by
  6507526; with the least \<^verbatim>\<open>RAND_MAX\<close> that C allows, 32767, by 100 and by 99.
\<close>

theorem gap_uniform_counterexample:
  "gap_draws 2147483647 135 = 6507527 \<and> gap_draws 2147483647 464 = 6507526 \<and>
   gap_draws 32767 135 = 100 \<and> gap_draws 32767 464 = 99"
  using gap_draws_eq [of 135 2147483647] gap_draws_eq [of 464 2147483647]
    gap_draws_eq [of 135 32767] gap_draws_eq [of 464 32767]
  by simp

section \<open>Slots far off the screen\<close>

text \<open>
  Claim C10.  Take a slot \<open>i\<close> with \<open>x > SCREEN_WIDTH + 100\<close>.  The body of the loop does
  nothing on it (it is not moved, not scored, not tested), and the renderer does not draw
  it.  In an update that does not spawn into the slot, the slot comes out as it went in,
  and the update computes the same from any other contents with \<open>x > SCREEN_WIDTH + 100\<close>
  that the slot might hold: the same bird, score, flag and other slots.  Such are all
  the slots after \<^verbatim>\<open>reset_game\<close>, which writes 1600 to \<open>x\<close> and leaves the rest of the
  slot, its two boxes included, as it was.
\<close>

theorem off_screen_slot_inert:
  assumes "length (pipes g) = MAX_PIPES" and "i < MAX_PIPES"
    and "pipe_x (pipes g ! i) > SCREEN_WIDTH + 100"
  shows "update_pipe i g = Some g \<and>
         pipe_drawn (pipes g ! i) \<noteq> Some True \<and>
         (\<not> (t - last_pipe_time g > PIPE_SPAWN_TIME \<and> next_pipe g = int i) \<longrightarrow>
            (\<forall>g'. update_game rnd t r g = Some g' \<longrightarrow> pipes g' ! i = pipes g ! i) \<and>
            (\<forall>q. pipe_x q > SCREEN_WIDTH + 100 \<longrightarrow>
               update_game rnd t r (g\<lparr> pipes := (pipes g)[i := q] \<rparr>) =
               map_option (\<lambda>g'. g'\<lparr> pipes := (pipes g')[i := q] \<rparr>) (update_game rnd t r g))) \<and>
         (length (pipes g0) = MAX_PIPES \<longrightarrow>
            pipes (reset_game now g0) ! i = (pipes g0 ! i)\<lparr> pipe_x := 2 * SCREEN_WIDTH \<rparr> \<and>
            pipe_x (pipes (reset_game now g0) ! i) = 1600 \<and>
            pipe_x (pipes (reset_game now g0) ! i) > SCREEN_WIDTH + 100)"
proof -
  have nr: "\<not> relevant (pipes g ! i)" and il: "i < length (pipes g)"
    using assms by (simp_all add: relevant_def)
  have A: "update_pipe i g = Some g" using nr by (rule update_pipe_skip)
  have B: "pipe_drawn (pipes g ! i) \<noteq> Some True"
    using assms(3) by (auto simp: pipe_drawn_def SCREEN_WIDTH_def split: bind_splits)
  have C: "pipes g' ! i = pipes g ! i"
    if ns: "\<not> (t - last_pipe_time g > PIPE_SPAWN_TIME \<and> next_pipe g = int i)"
      and u: "update_game rnd t r g = Some g'" for g'
  proof -
    from u obtain g1 g2 g3 where s: "spawn_step t r g = Some g1"
      and b: "bird_step rnd g1 = Some g2" and gr: "ground_check g2 = Some g3"
      and l: "pipes_loop 0 g3 = Some g'"
      by (rule update_game_Some)
    have p1: "pipes g1 ! i = pipes g ! i" "length (pipes g1) = length (pipes g)"
      using spawn_step_Some(4) [OF s] spawn_step_Some(5) [OF s, of i] ns by auto
    have p3: "pipes g3 = pipes g1"
      using bird_step_Some(1) [OF b] ground_check_Some(2) [OF gr] by simp
    show ?thesis
      using pipes_loop_stale_same [OF l, of i] p1 p3 nr il by simp
  qed
  have D: "update_game rnd t r (g\<lparr> pipes := (pipes g)[i := q] \<rparr>) =
           map_option (\<lambda>g'. g'\<lparr> pipes := (pipes g')[i := q] \<rparr>) (update_game rnd t r g)"
    if "\<not> (t - last_pipe_time g > PIPE_SPAWN_TIME \<and> next_pipe g = int i)"
      and "pipe_x q > SCREEN_WIDTH + 100" for q
    using that il nr by (intro update_game_stale_slot) (simp_all add: relevant_def)
  have E: "pipes (reset_game now g0) ! i = (pipes g0 ! i)\<lparr> pipe_x := 2 * SCREEN_WIDTH \<rparr>"
    if "length (pipes g0) = MAX_PIPES"
    using that assms(2) reset_pipes_nth [of 0 "pipes g0"]
    by (simp add: reset_game_def Let_def mult.commute)
  from A B C D E show ?thesis by (simp add: SCREEN_WIDTH_def)
qed

theorem off_screen_slot_inert_witness:
  "length (pipes (in_flight 300 0 300)) = MAX_PIPES \<and> (3::nat) < MAX_PIPES \<and>
   pipe_x (pipes (in_flight 300 0 300) ! 3) > SCREEN_WIDTH + 100 \<and>
   update_pipe 3 (in_flight 300 0 300) = Some (in_flight 300 0 300) \<and>
   pipe_drawn (pipes (in_flight 300 0 300) ! 3) \<noteq> Some True \<and>
   update_game exact 16 0
     ((in_flight 300 0 300)\<lparr> pipes := (pipes (in_flight 300 0 300))[3 := pipe_at 1600 300 False] \<rparr>) =
   Some ((in_flight (1502 / 5) (2 / 5) 300)
     \<lparr> pipes := (pipes (in_flight (1502 / 5) (2 / 5) 300))[3 := pipe_at 1600 300 False] \<rparr>)"
proof -
  have 1: "length (pipes (in_flight 300 0 300)) = MAX_PIPES"
    by (simp add: example_states MAX_PIPES_def)
  have 2: "(3::nat) < MAX_PIPES" by (simp add: MAX_PIPES_def)
  have 3: "pipe_x (pipes (in_flight 300 0 300) ! 3) > SCREEN_WIDTH + 100"
    by (simp add: example_states SCREEN_WIDTH_def)
  have 4: "\<not> ((16::32 word) - last_pipe_time (in_flight 300 0 300) > PIPE_SPAWN_TIME \<and>
              next_pipe (in_flight 300 0 300) = int 3)"
    by (simp add: example_states)
  have 5: "pipe_x (pipe_at 1600 300 False) > SCREEN_WIDTH + 100"
    by (simp add: pipe_at_def SCREEN_WIDTH_def)
  from off_screen_slot_inert [OF 1 2 3, of 16 exact 0] 1 2 3 4 5 first_frame show ?thesis
    by simp
qed

end
